theory Spec2Isabelle
  imports Complex_Main "HOL-Library.AList"
begin

section \<open>Data model of the plugin (src/index.ts, the registered-user revision)\<close>

text \<open>
  The source file holds two revisions of the plugin one after the other; the second one
  (lines 401-871, \<open>DEPOSIT = 2\<close>) is the one embedded, and line numbers refer to it.

  Numbers: \<open>points\<close>, \<open>lv\<close> and the bet are integers (the table declares them
  \<open>'integer'\<close>), modelled as \<open>int\<close>; the result of \<open>Math.random()\<close> and the win
  chance are modelled as \<open>real\<close>.
\<close>

text \<open>A row of the \<open>users\<close> table; the primary key \<open>userId\<close> is the key of the table.\<close>

record UserData =
  username :: string
  lastCheckIn :: "string option"
  points :: int
  lv :: int
  experience :: int
  streak :: int

text \<open>Of a koishi \<open>Session\<close> the handlers read \<open>userId\<close> and call \<open>send\<close>.\<close>

record Session =
  userId :: string

record LobbyPlayer =
  bet :: int
  session :: Session
  timeoutId :: nat

record PendingGame =
  player1Id :: string
  player2Id :: string
  player1Session :: Session
  player2Session :: Session
  player1Bet :: int
  player2Bet :: int
  winnerId :: string

record ActiveGame = PendingGame +
  logCount :: nat
  intervalId :: nat

definition DEPOSIT :: int where
  "DEPOSIT = 2"

definition LOBBY_TIMEOUT_MS :: int where
  "LOBBY_TIMEOUT_MS = 60 * 1000"

definition BATTLE_LOG_INTERVAL_MS :: int where
  "BATTLE_LOG_INTERVAL_MS = 2 * 1000"

definition BATTLE_LOG_COUNT :: nat where
  "BATTLE_LOG_COUNT = 5"

text \<open>Both phrase pools have six entries; a phrase is recorded by its index in its pool.\<close>

definition WINNER_PHRASES_length :: nat where
  "WINNER_PHRASES_length = 6"

definition LOSER_PHRASES_length :: nat where
  "LOSER_PHRASES_length = 6"

text \<open>
  The texts sent to the players are Chinese template strings; each template is one
  constructor that carries the values interpolated into it, in the template's order.
\<close>

datatype message =
    MsgNotRegistered                       \<comment> \<open>line 644\<close>
  | MsgInvalidBet                          \<comment> \<open>line 650\<close>
  | MsgInsufficient int int int int        \<comment> \<open>line 656: totalCost, bet, DEPOSIT, user.points\<close>
  | MsgAlreadyIn                           \<comment> \<open>line 661\<close>
  | MsgStaleOpponent                       \<comment> \<open>line 676\<close>
  | MsgMatchedPlayer1 string int           \<comment> \<open>line 703: player2Data.username, seconds\<close>
  | MsgMatchedPlayer2 string               \<comment> \<open>line 704: player1Data.username\<close>
  | MsgMatched                             \<comment> \<open>line 706\<close>
  | MsgLobbyTimeout int int                \<comment> \<open>line 714: totalCost, user.points + totalCost\<close>
  | MsgEnteredLobby int int int int        \<comment> \<open>line 719: seconds, bet, DEPOSIT, user.points\<close>
  | MsgNoPending                           \<comment> \<open>line 730\<close>
  | MsgGameStart                           \<comment> \<open>lines 741, 742\<close>
  | MsgStarted                             \<comment> \<open>line 748\<close>
  | MsgBattleLog nat nat int string nat int string nat
      \<comment> \<open>line 819: logCount, BATTLE_LOG_COUNT, winner lv, name, phrase, loser lv, name, phrase\<close>
  | MsgWon string int int int              \<comment> \<open>lines 837, 842: name, loser's bet, DEPOSIT, points\<close>
  | MsgLost string int int int             \<comment> \<open>lines 838, 841: name, own bet, DEPOSIT, points\<close>

text \<open>
  What a timer runs when it fires: the lobby timeout closure of line 709 (it captures
  \<open>session\<close>, the \<open>user\<close> object and \<open>totalCost\<close>), the empty placeholder of line
  737, and the interval closure of line 746 (it captures the \<open>activeGame\<close> object).
\<close>

datatype timer =
    LobbyTimer Session UserData int
  | Placeholder
  | BattleInterval nat

text \<open>
  The state the handlers share: the \<open>users\<close> table, the three \<open>Map\<close>s of lines
  473-475 in insertion order, the \<open>ActiveGame\<close> objects (the map, the interval closure
  and the running \<open>sendBattleLog\<close> calls hold references to one object, so the objects
  live in a store and are named by their address), the armed timers, the messages sent
  so far (oldest first) and the sequence of values \<open>Math.random()\<close> returns.
\<close>

record gstate =
  users :: "string \<Rightarrow> UserData option"
  matchingLobby :: "(string \<times> LobbyPlayer) list"
  pendingGames :: "(string \<times> PendingGame) list"
  activeGames :: "(string \<times> nat) list"
  objs :: "nat \<Rightarrow> ActiveGame"
  nextObj :: nat
  timers :: "(nat \<times> timer) list"
  nextTimer :: nat
  outbox :: "(Session \<times> message) list"
  randoms :: "nat \<Rightarrow> real"
  randomPos :: nat

section \<open>The capabilities the handlers call\<close>

text \<open>\<open>ctx.database.get('users', {userId})\<close>: the row, or nothing.\<close>

definition db_get :: "string \<Rightarrow> gstate \<Rightarrow> UserData option" where
  "db_get uid s = users s uid"

text \<open>\<open>ctx.database.set('users', {userId}, {points})\<close>: updates the rows that match.\<close>

definition db_set_points :: "string \<Rightarrow> int \<Rightarrow> gstate \<Rightarrow> gstate" where
  "db_set_points uid p s =
     (case users s uid of
        None \<Rightarrow> s
      | Some u \<Rightarrow> s\<lparr>users := (users s)(uid \<mapsto> u\<lparr>points := p\<rparr>)\<rparr>)"

definition send :: "Session \<Rightarrow> message \<Rightarrow> gstate \<Rightarrow> gstate" where
  "send sess m s = s\<lparr>outbox := outbox s @ [(sess, m)]\<rparr>"

definition Math_random :: "gstate \<Rightarrow> real \<times> gstate" where
  "Math_random s = (randoms s (randomPos s), s\<lparr>randomPos := randomPos s + 1\<rparr>)"

text \<open>\<open>setTimeout\<close> and \<open>setInterval\<close> arm a timer and return its handle.\<close>

definition setTimer :: "timer \<Rightarrow> gstate \<Rightarrow> nat \<times> gstate" where
  "setTimer t s =
     (nextTimer s, s\<lparr>timers := timers s @ [(nextTimer s, t)], nextTimer := nextTimer s + 1\<rparr>)"

text \<open>\<open>clearTimeout\<close> and \<open>clearInterval\<close>.\<close>

definition clearTimer :: "nat \<Rightarrow> gstate \<Rightarrow> gstate" where
  "clearTimer i s = s\<lparr>timers := AList.delete i (timers s)\<rparr>"

text \<open>
  The three stores are JavaScript \<open>Map\<close>s, which keep insertion order: association
  lists with \<open>map_of\<close> for \<open>get\<close>, \<open>AList.update\<close> for \<open>set\<close> and
  \<open>AList.delete\<close> for \<open>delete\<close>. \<open>has\<close> is \<open>Map.prototype.has\<close>.
\<close>

definition has :: "('k \<times> 'v) list \<Rightarrow> 'k \<Rightarrow> bool" where
  "has m k = list_ex (\<lambda>(k', v). k' = k) m"

text \<open>
  How a segment of an \<open>async\<close> function ends: it returned, it threw (a \<open>TypeError\<close> on
  reading a property of \<open>undefined\<close>: the promise rejects), or it is suspended at an
  \<open>await\<close> with the rest of the function still to run.
\<close>

datatype 'k status = Finished | Threw | Suspended 'k

text \<open>The string an action returns is sent to the caller's session by the framework.\<close>

definition reply :: "Session \<Rightarrow> message \<Rightarrow> gstate \<Rightarrow> gstate \<times> 'k status" where
  "reply sess m s = (send sess m s, Finished)"

section \<open>The handlers, one atomic segment per \<open>await\<close>\<close>

text \<open>
  JavaScript runs a handler without interruption until it reaches an \<open>await\<close>; other
  handlers and timer callbacks run only while it is suspended there. Each \<open>async\<close>
  function is therefore a machine whose states are its suspension points, holding the
  local variables that are live there, and whose transitions are the atomic segments
  between two \<open>await\<close>s. A database or notifier call takes effect when it is issued;
  the \<open>await\<close> then suspends the caller until the result is handed back.
\<close>

subsection \<open>\<open>sendBattleLog\<close> (lines 809-852)\<close>

datatype log_pc =
    Log_entry nat
      \<comment> \<open>called with the \<open>game\<close> object\<close>
  | Log_813 nat "UserData option"
      \<comment> \<open>awaiting the winner's row\<close>
  | Log_814 nat "UserData option" "UserData option"
      \<comment> \<open>awaiting the loser's row\<close>
  | Log_821 nat message
      \<comment> \<open>awaiting the send to player 1\<close>
  | Log_822 nat
      \<comment> \<open>awaiting the send to player 2\<close>
  | Log_829 nat "UserData option"
      \<comment> \<open>settlement: awaiting player 1's row\<close>
  | Log_830 nat "UserData option" "UserData option"
      \<comment> \<open>settlement: awaiting player 2's row\<close>
  | Log_846 nat UserData message message
      \<comment> \<open>awaiting the write of player 1's points; holds \<open>player2\<close> and both results\<close>
  | Log_847 nat message message
      \<comment> \<open>awaiting the write of player 2's points\<close>
  | Log_849 nat message
      \<comment> \<open>awaiting the result sent to player 1\<close>
  | Log_850
      \<comment> \<open>awaiting the result sent to player 2\<close>

definition loserId :: "'a PendingGame_scheme \<Rightarrow> string" where
  "loserId game =
     (if winnerId game = player1Id game then player2Id game else player1Id game)"

text \<open>Lines 816-819: two draws pick the phrases, then the template reads both rows.\<close>

definition log_compose ::
  "nat \<Rightarrow> UserData option \<Rightarrow> UserData option \<Rightarrow> gstate \<Rightarrow> gstate \<times> log_pc status" where
  "log_compose ref w l s =
     (let (r1, s1) = Math_random s;
          winnerPhrase = nat \<lfloor>r1 * real WINNER_PHRASES_length\<rfloor>;
          (r2, s2) = Math_random s1;
          loserPhrase = nat \<lfloor>r2 * real LOSER_PHRASES_length\<rfloor>;
          game = objs s2 ref
      in case w of
           None \<Rightarrow> (s2, Threw)
         | Some winnerUserData \<Rightarrow>
             (case l of
                None \<Rightarrow> (s2, Threw)
              | Some loserUserData \<Rightarrow>
                  (let logMessage =
                         MsgBattleLog (logCount game) BATTLE_LOG_COUNT
                           (lv winnerUserData) (username winnerUserData) winnerPhrase
                           (lv loserUserData) (username loserUserData) loserPhrase
                   in (send (player1Session game) logMessage s2,
                       Suspended (Log_821 ref logMessage)))))"

text \<open>Lines 824-830: the check of the tick count, and what opens the settlement.\<close>

definition log_check :: "nat \<Rightarrow> gstate \<Rightarrow> gstate \<times> log_pc status" where
  "log_check ref s =
     (let game = objs s ref
      in if logCount game \<ge> BATTLE_LOG_COUNT
         then (let s1 = clearTimer (intervalId game) s;
                   s2 = s1\<lparr>activeGames := AList.delete (player1Id game) (activeGames s1)\<rparr>
               in (s2, Suspended (Log_829 ref (db_get (player1Id game) s2))))
         else (s, Finished))"

text \<open>Lines 832-846: the winner's object is credited, then player 1's points are written.\<close>

definition log_settle ::
  "nat \<Rightarrow> UserData option \<Rightarrow> UserData option \<Rightarrow> gstate \<Rightarrow> gstate \<times> log_pc status" where
  "log_settle ref p1 p2 s =
     (let game = objs s ref
      in case p1 of
           None \<Rightarrow> (s, Threw)
         | Some player1 \<Rightarrow>
             (case p2 of
                None \<Rightarrow> (s, Threw)
              | Some player2 \<Rightarrow>
                  (if winnerId game = player1Id game
                   then (let player1' = player1\<lparr>points := points player1 + (player2Bet game + DEPOSIT)\<rparr>;
                             resultMessage1 =
                               MsgWon (username player1') (player2Bet game) DEPOSIT (points player1');
                             resultMessage2 =
                               MsgLost (username player2) (player2Bet game) DEPOSIT (points player2)
                         in (db_set_points (player1Id game) (points player1') s,
                             Suspended (Log_846 ref player2 resultMessage1 resultMessage2)))
                   else (let player2' = player2\<lparr>points := points player2 + (player1Bet game + DEPOSIT)\<rparr>;
                             resultMessage1 =
                               MsgLost (username player1) (player1Bet game) DEPOSIT (points player1);
                             resultMessage2 =
                               MsgWon (username player2') (player1Bet game) DEPOSIT (points player2')
                         in (db_set_points (player1Id game) (points player1) s,
                             Suspended (Log_846 ref player2' resultMessage1 resultMessage2))))))"

primrec sendBattleLog :: "log_pc \<Rightarrow> gstate \<Rightarrow> gstate \<times> log_pc status" where
  "sendBattleLog (Log_entry ref) s =
     (let s1 = s\<lparr>objs := (objs s)(ref := (objs s ref)\<lparr>logCount := logCount (objs s ref) + 1\<rparr>)\<rparr>
      in (s1, Suspended (Log_813 ref (db_get (winnerId (objs s1 ref)) s1))))"
| "sendBattleLog (Log_813 ref w) s =
     (s, Suspended (Log_814 ref w (db_get (loserId (objs s ref)) s)))"
| "sendBattleLog (Log_814 ref w l) s = log_compose ref w l s"
| "sendBattleLog (Log_821 ref logMessage) s =
     (send (player2Session (objs s ref)) logMessage s, Suspended (Log_822 ref))"
| "sendBattleLog (Log_822 ref) s = log_check ref s"
| "sendBattleLog (Log_829 ref p1) s =
     (s, Suspended (Log_830 ref p1 (db_get (player2Id (objs s ref)) s)))"
| "sendBattleLog (Log_830 ref p1 p2) s = log_settle ref p1 p2 s"
| "sendBattleLog (Log_846 ref player2 m1 m2) s =
     (db_set_points (player2Id (objs s ref)) (points player2) s, Suspended (Log_847 ref m1 m2))"
| "sendBattleLog (Log_847 ref m1 m2) s =
     (send (player1Session (objs s ref)) m1 s, Suspended (Log_849 ref m2))"
| "sendBattleLog (Log_849 ref m2) s =
     (send (player2Session (objs s ref)) m2 s, Suspended Log_850)"
| "sendBattleLog Log_850 s = (s, Finished)"

subsection \<open>The lobby timeout callback (lines 709-716)\<close>

datatype timeout_pc =
    Timeout_entry Session UserData int
      \<comment> \<open>the timer fired; \<open>session\<close>, \<open>user\<close> and \<open>totalCost\<close> of the closure\<close>
  | Timeout_713 Session UserData int
      \<comment> \<open>awaiting the refund write\<close>
  | Timeout_714
      \<comment> \<open>awaiting the notification\<close>

primrec lobbyTimeout :: "timeout_pc \<Rightarrow> gstate \<Rightarrow> gstate \<times> timeout_pc status" where
  "lobbyTimeout (Timeout_entry sess user totalCost) s =
     (if has (matchingLobby s) (userId sess)
      then (let s1 = s\<lparr>matchingLobby := AList.delete (userId sess) (matchingLobby s)\<rparr>
            in (db_set_points (userId sess) (points user + totalCost) s1,
                Suspended (Timeout_713 sess user totalCost)))
      else (s, Finished))"
| "lobbyTimeout (Timeout_713 sess user totalCost) s =
     (send sess (MsgLobbyTimeout totalCost (points user + totalCost)) s, Suspended Timeout_714)"
| "lobbyTimeout Timeout_714 s = (s, Finished)"

subsection \<open>The matching command (lines 636-721)\<close>

datatype match_pc =
    Match_entry Session "int option"
      \<comment> \<open>the action is called with \<open>session\<close> and \<open>options.bet\<close>\<close>
  | Match_640 Session "int option" "UserData option"
      \<comment> \<open>awaiting the caller's row\<close>
  | Match_665 Session int UserData
      \<comment> \<open>awaiting the escrow write; \<open>bet\<close> and \<open>user\<close> as read at line 640\<close>
  | Match_671 Session int UserData string LobbyPlayer "UserData option"
      \<comment> \<open>awaiting the opponent's row; \<open>user\<close> after line 666, the lobby entry picked\<close>
  | Match_675 Session
      \<comment> \<open>awaiting the refund write of the stale-opponent branch\<close>
  | Match_683 Session int string LobbyPlayer "UserData option"
      \<comment> \<open>awaiting \<open>player1Data\<close>\<close>
  | Match_684 Session int string LobbyPlayer "UserData option" "UserData option"
      \<comment> \<open>awaiting \<open>player2Data\<close>\<close>

text \<open>The membership check of line 660.\<close>

definition already_in :: "gstate \<Rightarrow> string \<Rightarrow> bool" where
  "already_in s uid \<longleftrightarrow>
     has (matchingLobby s) uid \<or>
     has (pendingGames s) uid \<or>
     has (activeGames s) uid \<or>
     list_ex (\<lambda>(k, g). player2Id g = uid) (pendingGames s) \<or>
     list_ex (\<lambda>(k, ref). player2Id (objs s ref) = uid) (activeGames s)"

text \<open>Lines 642-665: the checks, then the escrow write.\<close>

definition match_validate ::
  "Session \<Rightarrow> int option \<Rightarrow> UserData option \<Rightarrow> gstate \<Rightarrow> gstate \<times> match_pc status" where
  "match_validate sess bet_opt user_opt s =
     (case user_opt of
        None \<Rightarrow> reply sess MsgNotRegistered s
      | Some user \<Rightarrow>
          (case bet_opt of
             None \<Rightarrow> reply sess MsgInvalidBet s
           | Some b \<Rightarrow>
               if b \<le> 0 then reply sess MsgInvalidBet s
               else (let totalCost = b + DEPOSIT
                     in if points user < totalCost
                        then reply sess (MsgInsufficient totalCost b DEPOSIT (points user)) s
                        else if already_in s (userId sess)
                        then reply sess MsgAlreadyIn s
                        else (db_set_points (userId sess) (points user - totalCost) s,
                              Suspended (Match_665 sess b user)))))"

text \<open>
  Lines 666-671 and 708-720: \<open>user.points\<close> is lowered, the oldest lobby entry is
  looked up; with one (and a non-empty id, line 670) the opponent's row is requested,
  without one the caller enters the lobby behind a timeout timer.
\<close>

definition match_lookup :: "Session \<Rightarrow> int \<Rightarrow> UserData \<Rightarrow> gstate \<Rightarrow> gstate \<times> match_pc status" where
  "match_lookup sess b user0 s =
     (let totalCost = b + DEPOSIT;
          user = user0\<lparr>points := points user0 - totalCost\<rparr>;
          enter = (\<lambda>s. let (tid, s1) = setTimer (LobbyTimer sess user totalCost) s;
                            s2 = s1\<lparr>matchingLobby :=
                                     AList.update (userId sess)
                                       \<lparr>bet = b, session = sess, timeoutId = tid\<rparr> (matchingLobby s1)\<rparr>
                        in reply sess
                             (MsgEnteredLobby (LOBBY_TIMEOUT_MS div 1000) b DEPOSIT (points user)) s2)
      in case matchingLobby s of
           [] \<Rightarrow> enter s
         | (opponentId, opponentLobbyData) # _ \<Rightarrow>
             if opponentId \<noteq> []
             then (s, Suspended (Match_671 sess b user opponentId opponentLobbyData
                                   (db_get opponentId s)))
             else enter s)"

text \<open>Lines 672-683: the stale-opponent branch, or the opponent is taken off the lobby.\<close>

definition match_take ::
  "Session \<Rightarrow> int \<Rightarrow> UserData \<Rightarrow> string \<Rightarrow> LobbyPlayer \<Rightarrow> UserData option \<Rightarrow> gstate
     \<Rightarrow> gstate \<times> match_pc status" where
  "match_take sess b user opponentId opponentLobbyData opponent s =
     (let totalCost = b + DEPOSIT
      in case opponent of
           None \<Rightarrow>
             (let s1 = s\<lparr>matchingLobby := AList.delete opponentId (matchingLobby s)\<rparr>
              in (db_set_points (userId sess) (points user + totalCost) s1, Suspended (Match_675 sess)))
         | Some _ \<Rightarrow>
             (let s1 = clearTimer (timeoutId opponentLobbyData) s;
                  s2 = s1\<lparr>matchingLobby := AList.delete opponentId (matchingLobby s1)\<rparr>
              in (s2, Suspended (Match_683 sess b opponentId opponentLobbyData
                                   (db_get opponentId s2)))))"

text \<open>Lines 686-706: the winner is drawn and the pending game is stored.\<close>

definition match_pair ::
  "Session \<Rightarrow> int \<Rightarrow> string \<Rightarrow> LobbyPlayer \<Rightarrow> UserData option \<Rightarrow> UserData option \<Rightarrow> gstate
     \<Rightarrow> gstate \<times> match_pc status" where
  "match_pair sess b opponentId opponentLobbyData p1 p2 s =
     (case p1 of
        None \<Rightarrow> (s, Threw)
      | Some player1Data \<Rightarrow>
          (case p2 of
             None \<Rightarrow> (s, Threw)
           | Some player2Data \<Rightarrow>
               (let lvDifference = lv player1Data - lv player2Data;
                    player1WinChance = 0.5 + (real_of_int lvDifference * 0.05);
                    (r, s1) = Math_random s;
                    winner = (if r < player1WinChance then opponentId else userId sess);
                    game = \<lparr>player1Id = opponentId, player2Id = userId sess,
                            player1Session = session opponentLobbyData, player2Session = sess,
                            player1Bet = bet opponentLobbyData, player2Bet = b,
                            winnerId = winner\<rparr>;
                    s2 = s1\<lparr>pendingGames := AList.update opponentId game (pendingGames s1)\<rparr>;
                    s3 = send (session opponentLobbyData)
                           (MsgMatchedPlayer1 (username player2Data) (LOBBY_TIMEOUT_MS div 1000)) s2;
                    s4 = send sess (MsgMatchedPlayer2 (username player1Data)) s3
                in reply sess MsgMatched s4)))"

primrec matchAction :: "match_pc \<Rightarrow> gstate \<Rightarrow> gstate \<times> match_pc status" where
  "matchAction (Match_entry sess bet_opt) s =
     (s, Suspended (Match_640 sess bet_opt (db_get (userId sess) s)))"
| "matchAction (Match_640 sess bet_opt user_opt) s = match_validate sess bet_opt user_opt s"
| "matchAction (Match_665 sess b user) s = match_lookup sess b user s"
| "matchAction (Match_671 sess b user opponentId opponentLobbyData opponent) s =
     match_take sess b user opponentId opponentLobbyData opponent s"
| "matchAction (Match_675 sess) s = reply sess MsgStaleOpponent s"
| "matchAction (Match_683 sess b opponentId opponentLobbyData p1) s =
     (s, Suspended (Match_684 sess b opponentId opponentLobbyData p1 (db_get (userId sess) s)))"
| "matchAction (Match_684 sess b opponentId opponentLobbyData p1 p2) s =
     match_pair sess b opponentId opponentLobbyData p1 p2 s"

subsection \<open>The start command (lines 723-749)\<close>

datatype start_pc =
    Start_entry Session
      \<comment> \<open>the action is called\<close>
  | Start_741 Session PendingGame nat
      \<comment> \<open>awaiting the start notice to player 1; \<open>game\<close> and the \<open>activeGame\<close> object\<close>
  | Start_742 Session nat
      \<comment> \<open>awaiting the start notice to player 2\<close>
  | Start_745 Session nat log_pc
      \<comment> \<open>awaiting \<open>sendBattleLog(activeGame)\<close>, itself suspended\<close>

text \<open>
  Lines 727-741: the gate, then the promotion of the pending game. The object literal of
  lines 734-738 copies the seven fields of \<open>game\<close> and adds \<open>logCount\<close> and
  \<open>intervalId\<close> (\<open>spread_game\<close>).
\<close>

definition spread_game :: "PendingGame \<Rightarrow> nat \<Rightarrow> nat \<Rightarrow> ActiveGame" where
  "spread_game game n tid =
     \<lparr>player1Id = player1Id game, player2Id = player2Id game,
      player1Session = player1Session game, player2Session = player2Session game,
      player1Bet = player1Bet game, player2Bet = player2Bet game,
      winnerId = winnerId game, logCount = n, intervalId = tid\<rparr>"

definition start_confirm :: "Session \<Rightarrow> gstate \<Rightarrow> gstate \<times> start_pc status" where
  "start_confirm sess s =
     (case map_of (pendingGames s) (userId sess) of
        None \<Rightarrow> reply sess MsgNoPending s
      | Some game \<Rightarrow>
          if player1Id game \<noteq> userId sess then reply sess MsgNoPending s
          else (let s1 = s\<lparr>pendingGames := AList.delete (userId sess) (pendingGames s)\<rparr>;
                    (tid, s2) = setTimer Placeholder s1;
                    activeGame = spread_game game 0 tid;
                    ref = nextObj s2;
                    s3 = s2\<lparr>objs := (objs s2)(ref := activeGame), nextObj := ref + 1\<rparr>;
                    s4 = s3\<lparr>activeGames := AList.update (userId sess) ref (activeGames s3)\<rparr>
                in (send (player1Session game) MsgGameStart s4,
                    Suspended (Start_741 sess game ref))))"

text \<open>
  Lines 745-748: the caller awaits the first \<open>sendBattleLog\<close>; when that call
  returns, the interval is armed, its handle stored in the object, and the action returns.
\<close>

definition start_await ::
  "Session \<Rightarrow> nat \<Rightarrow> gstate \<times> log_pc status \<Rightarrow> gstate \<times> start_pc status" where
  "start_await sess ref r =
     (case r of
        (s, Suspended k) \<Rightarrow> (s, Suspended (Start_745 sess ref k))
      | (s, Threw) \<Rightarrow> (s, Threw)
      | (s, Finished) \<Rightarrow>
          (let (tid, s1) = setTimer (BattleInterval ref) s;
               s2 = s1\<lparr>objs := (objs s1)(ref := (objs s1 ref)\<lparr>intervalId := tid\<rparr>)\<rparr>
           in reply sess MsgStarted s2))"

primrec startAction :: "start_pc \<Rightarrow> gstate \<Rightarrow> gstate \<times> start_pc status" where
  "startAction (Start_entry sess) s = start_confirm sess s"
| "startAction (Start_741 sess game ref) s =
     (send (player2Session game) MsgGameStart s, Suspended (Start_742 sess ref))"
| "startAction (Start_742 sess ref) s = start_await sess ref (sendBattleLog (Log_entry ref) s)"
| "startAction (Start_745 sess ref k) s = start_await sess ref (sendBattleLog k s)"

section \<open>Tasks and the event loop\<close>

text \<open>A task is a call of one of the four \<open>async\<close> functions, at one of its program points.\<close>

datatype task =
    MatchTask match_pc
  | StartTask start_pc
  | TimeoutTask timeout_pc
  | LogTask log_pc

definition lift_status :: "('a \<Rightarrow> task) \<Rightarrow> gstate \<times> 'a status \<Rightarrow> gstate \<times> task status" where
  "lift_status c r =
     (case r of
        (s, Suspended k) \<Rightarrow> (s, Suspended (c k))
      | (s, Threw) \<Rightarrow> (s, Threw)
      | (s, Finished) \<Rightarrow> (s, Finished))"

text \<open>One atomic segment of a task.\<close>

primrec step :: "task \<Rightarrow> gstate \<Rightarrow> gstate \<times> task status" where
  "step (MatchTask k) s = lift_status MatchTask (matchAction k s)"
| "step (StartTask k) s = lift_status StartTask (startAction k s)"
| "step (TimeoutTask k) s = lift_status TimeoutTask (lobbyTimeout k s)"
| "step (LogTask k) s = lift_status LogTask (sendBattleLog k s)"

text \<open>
  Running a call with nothing else in between: its segments one after the other, until
  it returns or throws. The fuel is the number of segments; \<open>segments\<close> bounds it for
  every program point, so \<open>run_task\<close> always ends (\<open>run_task_ends\<close> below).
\<close>

primrec run_fuel :: "nat \<Rightarrow> task \<Rightarrow> gstate \<Rightarrow> gstate \<times> task status" where
  "run_fuel 0 t s = (s, Suspended t)"
| "run_fuel (Suc n) t s =
     (case step t s of
        (s', Suspended t') \<Rightarrow> run_fuel n t' s'
      | (s', Threw) \<Rightarrow> (s', Threw)
      | (s', Finished) \<Rightarrow> (s', Finished))"

primrec log_segments :: "log_pc \<Rightarrow> nat" where
  "log_segments (Log_entry ref) = 11"
| "log_segments (Log_813 ref w) = 10"
| "log_segments (Log_814 ref w l) = 9"
| "log_segments (Log_821 ref m) = 8"
| "log_segments (Log_822 ref) = 7"
| "log_segments (Log_829 ref p1) = 6"
| "log_segments (Log_830 ref p1 p2) = 5"
| "log_segments (Log_846 ref p2 m1 m2) = 4"
| "log_segments (Log_847 ref m1 m2) = 3"
| "log_segments (Log_849 ref m2) = 2"
| "log_segments Log_850 = 1"

primrec match_segments :: "match_pc \<Rightarrow> nat" where
  "match_segments (Match_entry sess bet_opt) = 7"
| "match_segments (Match_640 sess bet_opt user_opt) = 6"
| "match_segments (Match_665 sess b user) = 5"
| "match_segments (Match_671 sess b user oid od opp) = 4"
| "match_segments (Match_675 sess) = 1"
| "match_segments (Match_683 sess b oid od p1) = 2"
| "match_segments (Match_684 sess b oid od p1 p2) = 1"

primrec start_segments :: "start_pc \<Rightarrow> nat" where
  "start_segments (Start_entry sess) = 14"
| "start_segments (Start_741 sess game ref) = 13"
| "start_segments (Start_742 sess ref) = 12"
| "start_segments (Start_745 sess ref k) = log_segments k"

primrec timeout_segments :: "timeout_pc \<Rightarrow> nat" where
  "timeout_segments (Timeout_entry sess user c) = 3"
| "timeout_segments (Timeout_713 sess user c) = 2"
| "timeout_segments Timeout_714 = 1"

primrec segments :: "task \<Rightarrow> nat" where
  "segments (MatchTask k) = match_segments k"
| "segments (StartTask k) = start_segments k"
| "segments (TimeoutTask k) = timeout_segments k"
| "segments (LogTask k) = log_segments k"

definition run_task :: "task \<Rightarrow> gstate \<Rightarrow> gstate \<times> task status" where
  "run_task t s = run_fuel (segments t) t s"

text \<open>
  The event loop: a command arrives (its first segment runs at once), a suspended task is
  resumed because the call it awaits has completed, or an armed timer fires (a timeout is
  disarmed by firing, an interval stays armed). Suspended tasks are kept under a number.
\<close>

record loop =
  world :: gstate
  suspended :: "(nat \<times> task) list"
  nextTask :: nat

datatype event =
    Command_match Session "int option"
  | Command_start Session
  | Resume nat
  | Fire nat

definition launch :: "task \<Rightarrow> loop \<Rightarrow> loop" where
  "launch t c =
     (case step t (world c) of
        (s, Suspended t') \<Rightarrow>
          c\<lparr>world := s, suspended := suspended c @ [(nextTask c, t')], nextTask := nextTask c + 1\<rparr>
      | (s, Threw) \<Rightarrow> c\<lparr>world := s, nextTask := nextTask c + 1\<rparr>
      | (s, Finished) \<Rightarrow> c\<lparr>world := s, nextTask := nextTask c + 1\<rparr>)"

definition resume :: "nat \<Rightarrow> loop \<Rightarrow> loop" where
  "resume i c =
     (case map_of (suspended c) i of
        None \<Rightarrow> c
      | Some t \<Rightarrow>
          (case step t (world c) of
             (s, Suspended t') \<Rightarrow> c\<lparr>world := s, suspended := AList.update i t' (suspended c)\<rparr>
           | (s, Threw) \<Rightarrow> c\<lparr>world := s, suspended := AList.delete i (suspended c)\<rparr>
           | (s, Finished) \<Rightarrow> c\<lparr>world := s, suspended := AList.delete i (suspended c)\<rparr>))"

definition fire :: "nat \<Rightarrow> loop \<Rightarrow> loop" where
  "fire i c =
     (case map_of (timers (world c)) i of
        None \<Rightarrow> c
      | Some (LobbyTimer sess user totalCost) \<Rightarrow>
          launch (TimeoutTask (Timeout_entry sess user totalCost))
            (c\<lparr>world := clearTimer i (world c)\<rparr>)
      | Some Placeholder \<Rightarrow> c\<lparr>world := clearTimer i (world c)\<rparr>
      | Some (BattleInterval ref) \<Rightarrow> launch (LogTask (Log_entry ref)) c)"

primrec exec :: "event \<Rightarrow> loop \<Rightarrow> loop" where
  "exec (Command_match sess bet_opt) c = launch (MatchTask (Match_entry sess bet_opt)) c"
| "exec (Command_start sess) c = launch (StartTask (Start_entry sess)) c"
| "exec (Resume i) c = resume i c"
| "exec (Fire i) c = fire i c"

definition run :: "event list \<Rightarrow> loop \<Rightarrow> loop" where
  "run es c = fold exec es c"

section \<open>Concrete states for the worked examples\<close>

text \<open>
  When the plugin is loaded the three maps are empty, no timer is armed and nothing has
  been sent; the \<open>users\<close> table and the random sequence are what they are.
\<close>

definition blankGame :: ActiveGame where
  "blankGame = \<lparr>player1Id = [], player2Id = [], player1Session = \<lparr>userId = []\<rparr>,
     player2Session = \<lparr>userId = []\<rparr>, player1Bet = 0, player2Bet = 0, winnerId = [],
     logCount = 0, intervalId = 0\<rparr>"

definition boot :: "(string \<Rightarrow> UserData option) \<Rightarrow> (nat \<Rightarrow> real) \<Rightarrow> loop" where
  "boot tbl rnd =
     \<lparr>world = \<lparr>users = tbl, matchingLobby = [], pendingGames = [], activeGames = [],
               objs = (\<lambda>_. blankGame), nextObj = 0, timers = [], nextTimer = 0, outbox = [],
               randoms = rnd, randomPos = 0\<rparr>,
      suspended = [], nextTask = 0\<rparr>"

definition profile :: "string \<Rightarrow> int \<Rightarrow> int \<Rightarrow> UserData" where
  "profile n p l =
     \<lparr>username = n, lastCheckIn = None, points = p, lv = l, experience = 0, streak = 0\<rparr>"

text \<open>The table of the worked examples: A owns 500 points, B 300, C 50.\<close>

definition tbl3 :: "string \<Rightarrow> UserData option" where
  "tbl3 = [''A'' \<mapsto> profile ''alice'' 500 1, ''B'' \<mapsto> profile ''bob'' 300 1,
           ''C'' \<mapsto> profile ''carol'' 50 1]"

definition sessA :: Session where "sessA = \<lparr>userId = ''A''\<rparr>"
definition sessB :: Session where "sessB = \<lparr>userId = ''B''\<rparr>"
definition sessC :: Session where "sessC = \<lparr>userId = ''C''\<rparr>"

text \<open>A enters the lobby with a bet of 100 (task 0), nothing in between.\<close>

definition A_waits :: "event list" where
  "A_waits = [Command_match sessA (Some 100), Resume 0, Resume 0]"

text \<open>Then B asks for a match with a bet of 100 (task 1) and is paired with A.\<close>

definition B_joins :: "event list" where
  "B_joins = Command_match sessB (Some 100) # replicate 5 (Resume 1)"

definition paired :: gstate where
  "paired = world (run (A_waits @ B_joins) (boot tbl3 (\<lambda>_. 0.3)))"

definition gameAB :: PendingGame where
  "gameAB = \<lparr>player1Id = ''A'', player2Id = ''B'', player1Session = sessA,
              player2Session = sessB, player1Bet = 100, player2Bet = 100, winnerId = ''A''\<rparr>"

text \<open>The state when the plugin has just been loaded over the table of the examples.\<close>

definition fresh :: gstate where
  "fresh = world (boot tbl3 (\<lambda>_. 0.3))"

text \<open>A waits in the lobby.\<close>

definition waiting_A :: gstate where
  "waiting_A = world (run A_waits (boot tbl3 (\<lambda>_. 0.3)))"

text \<open>C, who owns 50 points, enters the lobby with a bet of 10 (task 0) and waits.\<close>

definition C_waits :: "event list" where
  "C_waits = [Command_match sessC (Some 10), Resume 0, Resume 0]"

definition waiting_C :: gstate where
  "waiting_C = world (run C_waits (boot tbl3 (\<lambda>_. 0.3)))"

text \<open>While C waits, another command (a check-in, say) raises C's points from 38 to 48.\<close>

definition waiting_C_richer :: gstate where
  "waiting_C_richer = waiting_C\<lparr>users := (users waiting_C)(''C'' \<mapsto> profile ''carol'' 48 1)\<rparr>"

text \<open>While A waits, A's row is removed from the table from outside the plugin.\<close>

definition orphaned :: gstate where
  "orphaned = waiting_A\<lparr>users := (users waiting_A)(''A'' := None)\<rparr>"



definition entryA :: LobbyPlayer where
  "entryA = \<lparr>bet = 100, session = sessA, timeoutId = 0\<rparr>"

text \<open>
  A waits in the lobby and B asks for a match. B's call is suspended at line 671 (it has
  picked A's entry and awaits A's row) when A's lobby timer (handle 0) fires; the timeout
  callback (task 2) runs up to its refund write, then B's call runs to its end, then the
  callback ends.
\<close>

definition race_pairing :: "event list" where
  "race_pairing = A_waits @
     [Command_match sessB (Some 100), Resume 1, Resume 1,
      Fire 0,
      Resume 1, Resume 1, Resume 1,
      Resume 2, Resume 2]"

text \<open>
  A waits in the lobby and B sends the matching command twice (tasks 1 and 2). Both calls
  pass the checks of lines 649-662 before either has changed a store; the first is then
  paired with A, and the second finds the lobby empty.
\<close>

definition race_double :: "event list" where
  "race_double = A_waits @
     [Command_match sessB (Some 100), Command_match sessB (Some 100),
      Resume 1, Resume 2,
      Resume 1, Resume 1, Resume 1, Resume 1,
      Resume 2]"

text \<open>
  The end-to-end scenario: A waits, B joins, A starts the game (task 2), and the interval
  (handle 2) fires four times (tasks 3 to 6), every call running to its end before the
  next event.
\<close>

definition full_game :: "event list" where
  "full_game = A_waits @ B_joins @
     Command_start sessA # replicate 6 (Resume 2) @
     Fire 2 # replicate 4 (Resume 3) @
     Fire 2 # replicate 4 (Resume 4) @
     Fire 2 # replicate 4 (Resume 5) @
     Fire 2 # replicate 10 (Resume 6)"

text \<open>
  The end-to-end scenario again, but the fourth tick is slow: the call of the third
  firing (task 5) is still suspended at line 822, awaiting its send to player 2, when the
  interval fires for the fourth time; the call of that firing (task 6) runs to its end,
  then task 5 is resumed.
\<close>

definition overlapping_ticks :: "event list" where
  "overlapping_ticks = A_waits @ B_joins @
     Command_start sessA # replicate 6 (Resume 2) @
     Fire 2 # replicate 4 (Resume 3) @
     Fire 2 # replicate 4 (Resume 4) @
     Fire 2 # replicate 3 (Resume 5) @
     Fire 2 # replicate 10 (Resume 6) @
     replicate 7 (Resume 5)"

section \<open>Notions the statements use\<close>

text \<open>
  A participant in the words of the specification: a player with a lobby entry, or who is
  \<open>player1Id\<close> or \<open>player2Id\<close> of a pending or of an active game.
\<close>

definition spec_participant :: "gstate \<Rightarrow> string \<Rightarrow> bool" where
  "spec_participant s uid \<longleftrightarrow>
     has (matchingLobby s) uid \<or>
     list_ex (\<lambda>(k, g). player1Id g = uid \<or> player2Id g = uid) (pendingGames s) \<or>
     list_ex (\<lambda>(k, ref). player1Id (objs s ref) = uid \<or> player2Id (objs s ref) = uid)
       (activeGames s)"

text \<open>
  In how many of the three stores a player appears, in the words of the specification
  (property P2 says: in at most one).
\<close>

definition appearances :: "gstate \<Rightarrow> string \<Rightarrow> nat" where
  "appearances s uid =
     (if has (matchingLobby s) uid then 1 else 0) +
     (if list_ex (\<lambda>(k, g). player1Id g = uid \<or> player2Id g = uid) (pendingGames s)
      then 1 else 0) +
     (if list_ex (\<lambda>(k, ref). player1Id (objs s ref) = uid \<or> player2Id (objs s ref) = uid)
           (activeGames s)
      then 1 else 0)"

text \<open>
  Lines 700 and 739 store a game under the id of its player 1; the check of line 660
  looks player 1 up by key.
\<close>

definition keyed_by_player1 :: "gstate \<Rightarrow> bool" where
  "keyed_by_player1 s \<longleftrightarrow>
     list_all (\<lambda>(k, g). player1Id g = k) (pendingGames s) \<and>
     list_all (\<lambda>(k, ref). player1Id (objs s ref) = k) (activeGames s)"

text \<open>A player's balance in the ledger (0 without a row).\<close>

definition balance :: "gstate \<Rightarrow> string \<Rightarrow> int" where
  "balance s uid = (case users s uid of None \<Rightarrow> 0 | Some u \<Rightarrow> points u)"

text \<open>The pending game of lines 691-699 for the draw \<open>r\<close> and the rows read at 683, 684.\<close>

definition drawn_game ::
  "Session \<Rightarrow> int \<Rightarrow> string \<Rightarrow> LobbyPlayer \<Rightarrow> UserData \<Rightarrow> UserData \<Rightarrow> real \<Rightarrow> PendingGame" where
  "drawn_game sess b oid od d1 d2 r =
     \<lparr>player1Id = oid, player2Id = userId sess,
      player1Session = session od, player2Session = sess,
      player1Bet = bet od, player2Bet = b,
      winnerId = (if r < 0.5 + 0.05 * real_of_int (lv d1 - lv d2) then oid else userId sess)\<rparr>"

text \<open>The index \<open>Math.floor(Math.random() * 6)\<close> of a phrase for the draw \<open>r\<close>.\<close>

definition phrase_index :: "real \<Rightarrow> nat" where
  "phrase_index r = nat \<lfloor>r * 6\<rfloor>"

text \<open>
  The broadcast of tick \<open>n\<close> as line 819 composes it, when the two draws of the tick
  are the values of the random sequence at \<open>pos\<close> and \<open>pos + 1\<close>.
\<close>

definition tick_message ::
  "(nat \<Rightarrow> real) \<Rightarrow> nat \<Rightarrow> nat \<Rightarrow> UserData \<Rightarrow> UserData \<Rightarrow> message" where
  "tick_message rnd pos n w l =
     MsgBattleLog n 5 (lv w) (username w) (phrase_index (rnd pos))
       (lv l) (username l) (phrase_index (rnd (pos + 1)))"

text \<open>The interval fires and the call of \<open>sendBattleLog\<close> it makes runs to its end.\<close>

definition interval_tick :: "nat \<Rightarrow> gstate \<Rightarrow> gstate" where
  "interval_tick ref s = fst (run_task (LogTask (Log_entry ref)) s)"

text \<open>The stake of the player who is not the winner (lines 836, 840).\<close>

definition loserBet :: "'a PendingGame_scheme \<Rightarrow> int" where
  "loserBet game =
     (if winnerId game = player1Id game then player2Bet game else player1Bet game)"

text \<open>The two result messages of lines 835-843, player 1's first.\<close>

definition settlement_pair ::
  "'a PendingGame_scheme \<Rightarrow> UserData \<Rightarrow> UserData \<Rightarrow> (Session \<times> message) list" where
  "settlement_pair game wd ld =
     (if winnerId game = player1Id game
      then [(player1Session game,
               MsgWon (username wd) (player2Bet game) DEPOSIT
                 (points wd + (player2Bet game + DEPOSIT))),
            (player2Session game, MsgLost (username ld) (player2Bet game) DEPOSIT (points ld))]
      else [(player1Session game, MsgLost (username ld) (player1Bet game) DEPOSIT (points ld)),
            (player2Session game,
               MsgWon (username wd) (player1Bet game) DEPOSIT
                 (points wd + (player1Bet game + DEPOSIT)))])"

text \<open>The broadcast of a tick to player 1 and to player 2 (lines 821, 822).\<close>

definition tick_pair ::
  "'a PendingGame_scheme \<Rightarrow> (nat \<Rightarrow> real) \<Rightarrow> nat \<Rightarrow> nat \<Rightarrow> UserData \<Rightarrow> UserData
     \<Rightarrow> (Session \<times> message) list" where
  "tick_pair g rnd pos n w l =
     [(player1Session g, tick_message rnd pos n w l),
      (player2Session g, tick_message rnd pos n w l)]"

text \<open>
  What the stores keep under every interleaving (\<open>reachable_keyed\<close> below): a game is
  stored under the id of its player 1, and the active games refer to objects that exist.
\<close>

definition store_inv :: "gstate \<Rightarrow> bool" where
  "store_inv s \<longleftrightarrow>
     keyed_by_player1 s \<and> list_all (\<lambda>(k, ref). ref < nextObj s) (activeGames s)"

section \<open>Sequential runs end\<close>

lemmas caps = db_get_def db_set_points_def send_def reply_def setTimer_def clearTimer_def
  Math_random_def lift_status_def

lemmas segs = log_compose_def log_check_def log_settle_def loserId_def
  match_validate_def match_lookup_def match_take_def match_pair_def start_confirm_def
  start_await_def

lemma log_decreases:
  "sendBattleLog k s = (s', Suspended k') \<Longrightarrow> log_segments k' < log_segments k"
  by (cases k) (auto simp: caps segs Let_def split: option.splits if_splits prod.splits)

lemma log_entry_next:
  "sendBattleLog (Log_entry ref) s = (s', Suspended k') \<Longrightarrow> log_segments k' = 10"
  by (auto simp: Let_def)

lemma start_decreases:
  "startAction k s = (s', Suspended k') \<Longrightarrow> start_segments k' < start_segments k"
proof (cases k)
  case (Start_entry sess)
  assume "startAction k s = (s', Suspended k')"
  with Start_entry show ?thesis
    by (auto simp: caps segs Let_def split: option.splits if_splits prod.splits)
next
  case (Start_741 sess game ref)
  assume "startAction k s = (s', Suspended k')"
  with Start_741 show ?thesis by auto
next
  case (Start_742 sess ref)
  assume "startAction k s = (s', Suspended k')"
  with Start_742 show ?thesis
    by (cases "sendBattleLog (Log_entry ref) s")
       (auto simp: start_await_def reply_def Let_def dest: log_entry_next
             split: status.splits prod.splits)
next
  case (Start_745 sess ref j)
  assume "startAction k s = (s', Suspended k')"
  with Start_745 show ?thesis
    by (cases "sendBattleLog j s")
       (auto simp: start_await_def reply_def Let_def dest: log_decreases
             split: status.splits prod.splits)
qed

lemma match_decreases:
  "matchAction k s = (s', Suspended k') \<Longrightarrow> match_segments k' < match_segments k"
  by (cases k)
     (auto simp: caps segs Let_def split: option.splits if_splits list.splits prod.splits)

lemma timeout_decreases:
  "lobbyTimeout k s = (s', Suspended k') \<Longrightarrow> timeout_segments k' < timeout_segments k"
  by (cases k) (auto simp: caps Let_def split: if_splits)

lemma step_decreases:
  "step t s = (s', Suspended t') \<Longrightarrow> segments t' < segments t"
proof (cases t)
  case (MatchTask k)
  assume "step t s = (s', Suspended t')"
  with MatchTask show ?thesis
    by (cases "matchAction k s")
       (auto simp: lift_status_def dest: match_decreases split: status.splits)
next
  case (StartTask k)
  assume "step t s = (s', Suspended t')"
  with StartTask show ?thesis
    by (cases "startAction k s")
       (auto simp: lift_status_def dest: start_decreases split: status.splits)
next
  case (TimeoutTask k)
  assume "step t s = (s', Suspended t')"
  with TimeoutTask show ?thesis
    by (cases "lobbyTimeout k s")
       (auto simp: lift_status_def dest: timeout_decreases split: status.splits)
next
  case (LogTask k)
  assume "step t s = (s', Suspended t')"
  with LogTask show ?thesis
    by (cases "sendBattleLog k s")
       (auto simp: lift_status_def dest: log_decreases split: status.splits)
qed

lemma log_segments_pos: "0 < log_segments k"
  by (cases k) auto

lemma segments_pos: "0 < segments t"
proof (cases t)
  case (MatchTask k)
  then show ?thesis by (cases k) auto
next
  case (StartTask k)
  then show ?thesis by (cases k) (auto simp: log_segments_pos)
next
  case (TimeoutTask k)
  then show ?thesis by (cases k) auto
next
  case (LogTask k)
  then show ?thesis by (simp add: log_segments_pos)
qed

lemma run_fuel_ends:
  "segments t \<le> n \<Longrightarrow> snd (run_fuel n t s) = Finished \<or> snd (run_fuel n t s) = Threw"
proof (induction n arbitrary: t s)
  case 0
  then show ?case using segments_pos[of t] by simp
next
  case (Suc n)
  show ?case
  proof (cases "step t s")
    case (Pair s' st)
    show ?thesis
    proof (cases st)
      case (Suspended t')
      with Pair have "segments t' < segments t" by (auto dest: step_decreases)
      with Suc.prems have "segments t' \<le> n" by simp
      from Suc.IH[OF this] Pair Suspended show ?thesis by simp
    qed (use Pair in auto)
  qed
qed

text \<open>A call that runs with nothing in between returns or throws: it never stays suspended.\<close>

lemma run_task_ends:
  "snd (run_task t s) = Finished \<or> snd (run_task t s) = Threw"
  unfolding run_task_def by (rule run_fuel_ends) simp

section \<open>What each handler does when it runs with nothing in between\<close>

lemma has_member: "(k, v) \<in> set m \<Longrightarrow> has m k"
  by (auto simp: has_def list_ex_iff)

lemma participant_checked:
  assumes keyed: "keyed_by_player1 s" and part: "spec_participant s uid"
  shows "already_in s uid"
proof -
  consider (lobby) "has (matchingLobby s) uid"
    | (pending) k g where "(k, g) \<in> set (pendingGames s)" "player1Id g = uid \<or> player2Id g = uid"
    | (active) k ref where "(k, ref) \<in> set (activeGames s)"
        "player1Id (objs s ref) = uid \<or> player2Id (objs s ref) = uid"
    using part unfolding spec_participant_def list_ex_iff by fast
  then show ?thesis
  proof cases
    case lobby
    then show ?thesis by (simp add: already_in_def)
  next
    case pending
    from keyed pending(1) have "player1Id g = k"
      unfolding keyed_by_player1_def list_all_iff by fast
    with pending have "has (pendingGames s) uid \<or> list_ex (\<lambda>(k, g). player2Id g = uid) (pendingGames s)"
      unfolding list_ex_iff by (fast intro: has_member)
    then show ?thesis unfolding already_in_def by blast
  next
    case active
    from keyed active(1) have "player1Id (objs s ref) = k"
      unfolding keyed_by_player1_def list_all_iff by fast
    with active have "has (activeGames s) uid \<or>
        list_ex (\<lambda>(k, ref). player2Id (objs s ref) = uid) (activeGames s)"
      unfolding list_ex_iff by (fast intro: has_member)
    then show ?thesis unfolding already_in_def by blast
  qed
qed

lemma validate_cases:
  "match_validate sess bet_opt None s = reply sess MsgNotRegistered s"
  "match_validate sess None (Some u) s = reply sess MsgInvalidBet s"
  "b \<le> 0 \<Longrightarrow> match_validate sess (Some b) (Some u) s = reply sess MsgInvalidBet s"
  "0 < b \<Longrightarrow> points u < b + DEPOSIT \<Longrightarrow>
     match_validate sess (Some b) (Some u) s =
       reply sess (MsgInsufficient (b + DEPOSIT) b DEPOSIT (points u)) s"
  "0 < b \<Longrightarrow> b + DEPOSIT \<le> points u \<Longrightarrow> already_in s (userId sess) \<Longrightarrow>
     match_validate sess (Some b) (Some u) s = reply sess MsgAlreadyIn s"
  "0 < b \<Longrightarrow> b + DEPOSIT \<le> points u \<Longrightarrow> \<not> already_in s (userId sess) \<Longrightarrow>
     match_validate sess (Some b) (Some u) s =
       (db_set_points (userId sess) (points u - (b + DEPOSIT)) s,
        Suspended (Match_665 sess b u))"
  by (simp_all add: match_validate_def Let_def)

lemma validate_rejects:
  assumes "user_opt = None \<or> bet_opt = None \<or> (\<exists>b. bet_opt = Some b \<and> b \<le> 0) \<or>
           (\<exists>b u. bet_opt = Some b \<and> user_opt = Some u \<and> points u < b + DEPOSIT) \<or>
           already_in s (userId sess)"
  shows "\<exists>m. match_validate sess bet_opt user_opt s = reply sess m s"
proof (cases user_opt)
  case None
  then show ?thesis by (intro exI[of _ MsgNotRegistered]) (simp add: validate_cases)
next
  case (Some u)
  note usr = this
  show ?thesis
  proof (cases bet_opt)
    case None
    with usr show ?thesis by (intro exI[of _ MsgInvalidBet]) (simp add: validate_cases)
  next
    case (Some b)
    note bet = this
    show ?thesis
    proof (cases "b \<le> 0")
      case True
      with usr bet show ?thesis by (intro exI[of _ MsgInvalidBet]) (simp add: validate_cases)
    next
      case False
      then have pos: "0 < b" by simp
      show ?thesis
      proof (cases "points u < b + DEPOSIT")
        case True
        with usr bet pos show ?thesis
          by (intro exI[of _ "MsgInsufficient (b + DEPOSIT) b DEPOSIT (points u)"])
             (simp add: validate_cases)
      next
        case False
        then have enough: "b + DEPOSIT \<le> points u" by simp
        from assms usr bet pos False have "already_in s (userId sess)" by auto
        with usr bet pos enough show ?thesis
          by (intro exI[of _ MsgAlreadyIn]) (simp add: validate_cases)
      qed
    qed
  qed
qed

lemma run_fuel_unfold:
  "run_fuel (numeral n) t s =
     (case step t s of
        (s', Suspended t') \<Rightarrow> run_fuel (pred_numeral n) t' s'
      | (s', Threw) \<Rightarrow> (s', Threw)
      | (s', Finished) \<Rightarrow> (s', Finished))"
  by (simp add: numeral_eq_Suc)

lemma lookup_empty:
  "matchingLobby s = [] \<Longrightarrow>
   match_lookup sess b user0 s =
     (s\<lparr>timers := timers s @ [(nextTimer s,
             LobbyTimer sess (user0\<lparr>points := points user0 - (b + DEPOSIT)\<rparr>) (b + DEPOSIT))],
         nextTimer := nextTimer s + 1,
         matchingLobby := [(userId sess, \<lparr>bet = b, session = sess, timeoutId = nextTimer s\<rparr>)],
         outbox := outbox s @
           [(sess, MsgEnteredLobby 60 b DEPOSIT (points user0 - (b + DEPOSIT)))]\<rparr>, Finished)"
  by (simp add: match_lookup_def Let_def setTimer_def reply_def send_def LOBBY_TIMEOUT_MS_def)

lemma enter_lobby_run:
  assumes row: "users s (userId sess) = Some user"
      and pos: "0 < b" and enough: "b + DEPOSIT \<le> points user"
      and free: "\<not> already_in s (userId sess)"
      and empty: "matchingLobby s = []"
  shows "run_task (MatchTask (Match_entry sess (Some b))) s =
     (s\<lparr>users := (users s)(userId sess \<mapsto> user\<lparr>points := points user - (b + DEPOSIT)\<rparr>),
         timers := timers s @ [(nextTimer s,
             LobbyTimer sess (user\<lparr>points := points user - (b + DEPOSIT)\<rparr>) (b + DEPOSIT))],
         nextTimer := nextTimer s + 1,
         matchingLobby := [(userId sess, \<lparr>bet = b, session = sess, timeoutId = nextTimer s\<rparr>)],
         outbox := outbox s @
           [(sess, MsgEnteredLobby 60 b DEPOSIT (points user - (b + DEPOSIT)))]\<rparr>, Finished)"
  using assms
  by (simp add: run_task_def run_fuel_unfold lift_status_def db_get_def validate_cases
        db_set_points_def lookup_empty)


text \<open>A lobby timer that fires when its player's entry is gone does nothing.\<close>

lemma timeout_absent:
  "\<not> has (matchingLobby s) (userId sess) \<Longrightarrow>
   run_task (TimeoutTask (Timeout_entry sess user c)) s = (s, Finished)"
  by (simp add: run_task_def run_fuel_unfold lift_status_def)

lemma lookup_opponent:
  "matchingLobby s = (oid, od) # rest \<Longrightarrow> oid \<noteq> [] \<Longrightarrow>
   match_lookup sess b user0 s =
     (s, Suspended (Match_671 sess b (user0\<lparr>points := points user0 - (b + DEPOSIT)\<rparr>) oid od
           (users s oid)))"
  by (simp add: match_lookup_def Let_def db_get_def)

lemma take_stale:
  assumes row: "users s (userId sess) = Some cur"
  shows "match_take sess b user oid od None s =
     (s\<lparr>matchingLobby := AList.delete oid (matchingLobby s),
         users := (users s)(userId sess \<mapsto> cur\<lparr>points := points user + (b + DEPOSIT)\<rparr>)\<rparr>,
      Suspended (Match_675 sess))"
  using row by (simp add: match_take_def Let_def db_set_points_def)

lemma take_present:
  "match_take sess b user oid od (Some opp) s =
     (s\<lparr>timers := AList.delete (timeoutId od) (timers s),
         matchingLobby := AList.delete oid (matchingLobby s)\<rparr>,
      Suspended (Match_683 sess b oid od (users s oid)))"
  by (simp add: match_take_def Let_def clearTimer_def db_get_def)

lemma pair_present:
  "match_pair sess b oid od (Some d1) (Some d2) s =
     (s\<lparr>randomPos := randomPos s + 1,
         pendingGames := AList.update oid
            (drawn_game sess b oid od d1 d2 (randoms s (randomPos s))) (pendingGames s),
         outbox := outbox s @
            [(session od, MsgMatchedPlayer1 (username d2) 60),
             (sess, MsgMatchedPlayer2 (username d1)), (sess, MsgMatched)]\<rparr>, Finished)"
  by (simp add: match_pair_def drawn_game_def Let_def Math_random_def send_def reply_def
        LOBBY_TIMEOUT_MS_def mult.commute)

lemma pair_from_take:
  assumes p1: "users s oid = Some d1" and p2: "users s (userId sess) = Some d2"
  shows "run_task (MatchTask (Match_671 sess b user oid od (Some opp))) s =
     (s\<lparr>timers := AList.delete (timeoutId od) (timers s),
         matchingLobby := AList.delete oid (matchingLobby s),
         randomPos := randomPos s + 1,
         pendingGames := AList.update oid
            (drawn_game sess b oid od d1 d2 (randoms s (randomPos s))) (pendingGames s),
         outbox := outbox s @
            [(session od, MsgMatchedPlayer1 (username d2) 60),
             (sess, MsgMatchedPlayer2 (username d1)), (sess, MsgMatched)]\<rparr>, Finished)"
  using p1 p2
  by (simp add: run_task_def run_fuel_unfold lift_status_def take_present pair_present db_get_def)

lemma compose_present:
  "log_compose ref (Some w) (Some l) s =
     (s\<lparr>randomPos := randomPos s + 2,
         outbox := outbox s @ [(player1Session (objs s ref), tick_message (randoms s) (randomPos s) (logCount (objs s ref)) w l)]\<rparr>,
      Suspended (Log_821 ref (tick_message (randoms s) (randomPos s) (logCount (objs s ref)) w l)))"
  by (simp add: log_compose_def Let_def Math_random_def send_def tick_message_def phrase_index_def
        BATTLE_LOG_COUNT_def WINNER_PHRASES_length_def LOSER_PHRASES_length_def)

lemma loserId_update [simp]:
  "loserId (g\<lparr>logCount := n\<rparr>) = loserId g"
  "loserId (g\<lparr>intervalId := i\<rparr>) = loserId g"
  by (simp_all add: loserId_def)

text \<open>A tick that is not the last one.\<close>

lemma tick_early:
  assumes obj: "objs s ref = game" and early: "logCount game + 1 < 5"
      and w: "users s (winnerId game) = Some wd" and l: "users s (loserId game) = Some ld"
  shows "run_task (LogTask (Log_entry ref)) s =
     (s\<lparr>objs := (objs s)(ref := game\<lparr>logCount := logCount game + 1\<rparr>),
         randomPos := randomPos s + 2,
         outbox := outbox s @
           [(player1Session game, tick_message (randoms s) (randomPos s) (logCount game + 1) wd ld),
            (player2Session game, tick_message (randoms s) (randomPos s) (logCount game + 1) wd ld)]\<rparr>, Finished)"
  using assms
  by (simp add: run_task_def run_fuel_unfold lift_status_def Let_def db_get_def compose_present
        send_def log_check_def BATTLE_LOG_COUNT_def tick_message_def)

lemma settle_p1:
  assumes "winnerId (objs s ref) = player1Id (objs s ref)"
  shows "log_settle ref (Some p1) (Some p2) s =
     (db_set_points (player1Id (objs s ref))
        (points p1 + (player2Bet (objs s ref) + DEPOSIT)) s,
      Suspended (Log_846 ref p2
        (MsgWon (username p1) (player2Bet (objs s ref)) DEPOSIT
           (points p1 + (player2Bet (objs s ref) + DEPOSIT)))
        (MsgLost (username p2) (player2Bet (objs s ref)) DEPOSIT (points p2))))"
  using assms by (simp add: log_settle_def Let_def)

lemma settle_p2:
  assumes "winnerId (objs s ref) \<noteq> player1Id (objs s ref)"
  shows "log_settle ref (Some p1) (Some p2) s =
     (db_set_points (player1Id (objs s ref)) (points p1) s,
      Suspended (Log_846 ref (p2\<lparr>points := points p2 + (player1Bet (objs s ref) + DEPOSIT)\<rparr>)
        (MsgLost (username p1) (player1Bet (objs s ref)) DEPOSIT (points p1))
        (MsgWon (username p2) (player1Bet (objs s ref)) DEPOSIT
           (points p2 + (player1Bet (objs s ref) + DEPOSIT)))))"
  using assms by (simp add: log_settle_def Let_def)

lemma check_last:
  assumes "5 \<le> logCount (objs s ref)"
  shows "log_check ref s =
     (s\<lparr>timers := AList.delete (intervalId (objs s ref)) (timers s),
         activeGames := AList.delete (player1Id (objs s ref)) (activeGames s)\<rparr>,
      Suspended (Log_829 ref (users s (player1Id (objs s ref)))))"
  using assms by (simp add: log_check_def Let_def BATTLE_LOG_COUNT_def clearTimer_def db_get_def)

text \<open>The last tick when player 1 is the winner.\<close>

lemma tick_last_p1:
  assumes obj: "objs s ref = game" and last: "5 \<le> logCount game + 1"
      and win: "winnerId game = player1Id game" and two: "player1Id game \<noteq> player2Id game"
      and w: "users s (player1Id game) = Some wd" and l: "users s (player2Id game) = Some ld"
  shows "run_task (LogTask (Log_entry ref)) s =
     (s\<lparr>objs := (objs s)(ref := game\<lparr>logCount := logCount game + 1\<rparr>),
         randomPos := randomPos s + 2,
         timers := AList.delete (intervalId game) (timers s),
         activeGames := AList.delete (player1Id game) (activeGames s),
         users := (users s)(player1Id game \<mapsto>
                     wd\<lparr>points := points wd + (player2Bet game + DEPOSIT)\<rparr>),
         outbox := outbox s @
           [(player1Session game, tick_message (randoms s) (randomPos s) (logCount game + 1) wd ld),
            (player2Session game, tick_message (randoms s) (randomPos s) (logCount game + 1) wd ld),
            (player1Session game,
               MsgWon (username wd) (player2Bet game) DEPOSIT
                 (points wd + (player2Bet game + DEPOSIT))),
            (player2Session game,
               MsgLost (username ld) (player2Bet game) DEPOSIT (points ld))]\<rparr>, Finished)"
proof -
  have lose: "loserId game = player2Id game" using win by (simp add: loserId_def)
  show ?thesis
    using assms lose
    by (simp add: run_task_def run_fuel_unfold lift_status_def Let_def db_get_def compose_present
        send_def check_last settle_p1 tick_message_def db_set_points_def map_upd_triv)
qed

text \<open>The last tick when player 2 is the winner.\<close>

lemma tick_last_p2:
  assumes obj: "objs s ref = game" and last: "5 \<le> logCount game + 1"
      and win: "winnerId game = player2Id game" and two: "player1Id game \<noteq> player2Id game"
      and w: "users s (player2Id game) = Some wd" and l: "users s (player1Id game) = Some ld"
  shows "run_task (LogTask (Log_entry ref)) s =
     (s\<lparr>objs := (objs s)(ref := game\<lparr>logCount := logCount game + 1\<rparr>),
         randomPos := randomPos s + 2,
         timers := AList.delete (intervalId game) (timers s),
         activeGames := AList.delete (player1Id game) (activeGames s),
         users := (users s)(player2Id game \<mapsto>
                     wd\<lparr>points := points wd + (player1Bet game + DEPOSIT)\<rparr>),
         outbox := outbox s @
           [(player1Session game, tick_message (randoms s) (randomPos s) (logCount game + 1) wd ld),
            (player2Session game, tick_message (randoms s) (randomPos s) (logCount game + 1) wd ld),
            (player1Session game,
               MsgLost (username ld) (player1Bet game) DEPOSIT (points ld)),
            (player2Session game,
               MsgWon (username wd) (player1Bet game) DEPOSIT
                 (points wd + (player1Bet game + DEPOSIT)))]\<rparr>, Finished)"
proof -
  have lose: "loserId game = player1Id game" and nwin: "winnerId game \<noteq> player1Id game"
    using win two by (simp_all add: loserId_def)
  show ?thesis
    using assms lose nwin
    by (simp add: run_task_def run_fuel_unfold lift_status_def Let_def db_get_def compose_present
        send_def check_last settle_p2 tick_message_def db_set_points_def map_upd_triv)
qed

lemma confirm_ok:
  assumes pend: "map_of (pendingGames s) (userId sess) = Some g"
      and init: "player1Id g = userId sess"
  shows "start_confirm sess s =
     (s\<lparr>pendingGames := AList.delete (userId sess) (pendingGames s),
         timers := timers s @ [(nextTimer s, Placeholder)],
         nextTimer := nextTimer s + 1,
         objs := (objs s)(nextObj s := spread_game g 0 (nextTimer s)),
         nextObj := nextObj s + 1,
         activeGames := AList.update (userId sess) (nextObj s) (activeGames s),
         outbox := outbox s @ [(player1Session g, MsgGameStart)]\<rparr>,
      Suspended (Start_741 sess g (nextObj s)))"
  using assms by (simp add: start_confirm_def Let_def setTimer_def send_def)

lemma spread_fields [simp]:
  "player1Id (spread_game g n i) = player1Id g"
  "player2Id (spread_game g n i) = player2Id g"
  "player1Session (spread_game g n i) = player1Session g"
  "player2Session (spread_game g n i) = player2Session g"
  "player1Bet (spread_game g n i) = player1Bet g"
  "player2Bet (spread_game g n i) = player2Bet g"
  "winnerId (spread_game g n i) = winnerId g"
  "logCount (spread_game g n i) = n"
  "intervalId (spread_game g n i) = i"
  "loserId (spread_game g n i) = loserId g"
  "(spread_game g n i)\<lparr>logCount := m\<rparr> = spread_game g m i"
  "(spread_game g n i)\<lparr>intervalId := j\<rparr> = spread_game g n j"
  by (simp_all add: spread_game_def loserId_def)

text \<open>The start command of the initiator, with nothing in between.\<close>

lemma start_run:
  assumes pend: "map_of (pendingGames s) (userId sess) = Some g"
      and init: "player1Id g = userId sess"
      and w: "users s (winnerId g) = Some wd" and l: "users s (loserId g) = Some ld"
  shows "run_task (StartTask (Start_entry sess)) s =
     (s\<lparr>pendingGames := AList.delete (userId sess) (pendingGames s),
         timers := timers s @ [(nextTimer s, Placeholder),
                               (nextTimer s + 1, BattleInterval (nextObj s))],
         nextTimer := nextTimer s + 2,
         objs := (objs s)(nextObj s := spread_game g 1 (nextTimer s + 1)),
         nextObj := nextObj s + 1,
         activeGames := AList.update (userId sess) (nextObj s) (activeGames s),
         randomPos := randomPos s + 2,
         outbox := outbox s @
           [(player1Session g, MsgGameStart), (player2Session g, MsgGameStart),
            (player1Session g, tick_message (randoms s) (randomPos s) 1 wd ld),
            (player2Session g, tick_message (randoms s) (randomPos s) 1 wd ld),
            (sess, MsgStarted)]\<rparr>, Finished)"
  using assms
  by (simp add: run_task_def run_fuel_unfold lift_status_def confirm_ok send_def start_await_def
        Let_def db_get_def compose_present log_check_def BATTLE_LOG_COUNT_def setTimer_def
        reply_def tick_message_def)

lemma start_first_tick:
  assumes pend: "map_of (pendingGames s) (userId sess) = Some g"
      and init: "player1Id g = userId sess"
      and w: "users s (winnerId g) = Some wd" and l: "users s (loserId g) = Some ld"
  shows "run_fuel 6 (StartTask (Start_entry sess)) s =
     (s\<lparr>pendingGames := AList.delete (userId sess) (pendingGames s),
         timers := timers s @ [(nextTimer s, Placeholder)],
         nextTimer := nextTimer s + 1,
         objs := (objs s)(nextObj s := spread_game g 1 (nextTimer s)),
         nextObj := nextObj s + 1,
         activeGames := AList.update (userId sess) (nextObj s) (activeGames s),
         randomPos := randomPos s + 2,
         outbox := outbox s @
           [(player1Session g, MsgGameStart), (player2Session g, MsgGameStart),
            (player1Session g, tick_message (randoms s) (randomPos s) 1 wd ld),
            (player2Session g, tick_message (randoms s) (randomPos s) 1 wd ld)]\<rparr>,
      Suspended (StartTask (Start_745 sess (nextObj s) (Log_822 (nextObj s)))))"
  using assms
  by (simp add: run_fuel_unfold lift_status_def confirm_ok send_def start_await_def
        Let_def db_get_def compose_present tick_message_def)

lemma interval_tick_early:
  assumes early: "logCount (objs s ref) + 1 < 5"
      and w: "users s (winnerId (objs s ref)) = Some wd"
      and l: "users s (loserId (objs s ref)) = Some ld"
  shows "interval_tick ref s =
     s\<lparr>objs := (objs s)(ref := (objs s ref)\<lparr>logCount := logCount (objs s ref) + 1\<rparr>),
        randomPos := randomPos s + 2,
        outbox := outbox s @
          [(player1Session (objs s ref),
              tick_message (randoms s) (randomPos s) (logCount (objs s ref) + 1) wd ld),
           (player2Session (objs s ref),
              tick_message (randoms s) (randomPos s) (logCount (objs s ref) + 1) wd ld)]\<rparr>"
  unfolding interval_tick_def using tick_early[OF refl early w l] by simp

lemma interval_tick_last:
  assumes obj: "objs s ref = game" and last: "5 \<le> logCount game + 1"
      and win: "winnerId game = player1Id game \<or> winnerId game = player2Id game"
      and two: "player1Id game \<noteq> player2Id game"
      and w: "users s (winnerId game) = Some wd" and l: "users s (loserId game) = Some ld"
  shows "interval_tick ref s =
     s\<lparr>objs := (objs s)(ref := game\<lparr>logCount := logCount game + 1\<rparr>),
        randomPos := randomPos s + 2,
        timers := AList.delete (intervalId game) (timers s),
        activeGames := AList.delete (player1Id game) (activeGames s),
        users := (users s)(winnerId game \<mapsto>
                    wd\<lparr>points := points wd + (loserBet game + DEPOSIT)\<rparr>),
        outbox := outbox s @
          [(player1Session game, tick_message (randoms s) (randomPos s) (logCount game + 1) wd ld),
           (player2Session game, tick_message (randoms s) (randomPos s) (logCount game + 1) wd ld)]
          @ settlement_pair game wd ld\<rparr>"
proof (cases "winnerId game = player1Id game")
  case True
  then have lose: "loserId game = player2Id game" by (simp add: loserId_def)
  from tick_last_p1[OF obj last True two] w l True lose
  show ?thesis by (simp add: interval_tick_def loserBet_def settlement_pair_def)
next
  case False
  with win have p2: "winnerId game = player2Id game" by simp
  from False have lose: "loserId game = player1Id game" by (simp add: loserId_def)
  from tick_last_p2[OF obj last p2 two] w l False lose p2
  show ?thesis by (simp add: interval_tick_def loserBet_def settlement_pair_def)
qed

section \<open>Games are stored under the id of player 1\<close>

lemma update_member:
  "(a, b) \<in> set (AList.update k v xs) \<Longrightarrow> (a, b) = (k, v) \<or> (a, b) \<in> set xs"
  by (induction xs) (auto split: if_splits)

lemma delete_member:
  "(a, b) \<in> set (AList.delete k xs) \<Longrightarrow> (a, b) \<in> set xs"
  by (simp add: AList.delete_eq)

lemma store_inv_iff:
  "store_inv s \<longleftrightarrow>
     (\<forall>(k, g) \<in> set (pendingGames s). player1Id g = k) \<and>
     (\<forall>(k, ref) \<in> set (activeGames s). player1Id (objs s ref) = k \<and> ref < nextObj s)"
  by (auto simp: store_inv_def keyed_by_player1_def list_all_iff)

lemma store_inv_frame:
  assumes "store_inv s"
      and "pendingGames s' = pendingGames s" and "activeGames s' = activeGames s"
      and "nextObj s' = nextObj s"
      and "\<And>r. player1Id (objs s' r) = player1Id (objs s r)"
  shows "store_inv s'"
  using assms by (simp add: store_inv_iff)

lemma store_inv_caps [simp]:
  "store_inv (db_set_points uid p s) = store_inv s"
  "store_inv (send sess m s) = store_inv s"
  "store_inv (clearTimer i s) = store_inv s"
  "store_inv (snd (setTimer t s)) = store_inv s"
  "store_inv (snd (Math_random s)) = store_inv s"
  "store_inv (s\<lparr>matchingLobby := lb\<rparr>) = store_inv s"
  by (simp_all add: store_inv_iff db_set_points_def send_def clearTimer_def setTimer_def
        Math_random_def split: option.splits)

lemma log_inv: "store_inv s \<Longrightarrow> store_inv (fst (sendBattleLog k s))"
proof (cases k)
  case (Log_entry ref)
  assume "store_inv s"
  then show ?thesis unfolding Log_entry
    by (auto simp: store_inv_iff Let_def)
next
  case (Log_814 ref w l)
  assume "store_inv s"
  then show ?thesis unfolding Log_814
    by (auto simp: log_compose_def Let_def Math_random_def send_def store_inv_iff
             split: option.splits)
next
  case (Log_822 ref)
  assume "store_inv s"
  then show ?thesis unfolding Log_822
    by (auto simp: log_check_def Let_def clearTimer_def store_inv_iff dest: delete_member)
next
  case (Log_830 ref p1 p2)
  assume "store_inv s"
  then show ?thesis unfolding Log_830
    by (auto simp: log_settle_def Let_def split: option.splits)
qed (simp_all)

lemma timeout_inv: "store_inv s \<Longrightarrow> store_inv (fst (lobbyTimeout k s))"
  by (cases k) (simp_all add: Let_def)

lemma match_inv: "store_inv s \<Longrightarrow> store_inv (fst (matchAction k s))"
proof (cases k)
  case (Match_640 sess bet_opt user_opt)
  assume "store_inv s"
  then show ?thesis unfolding Match_640
    by (auto simp: match_validate_def reply_def Let_def split: option.splits)
next
  case (Match_665 sess b user)
  assume "store_inv s"
  then show ?thesis unfolding Match_665
    by (auto simp: match_lookup_def reply_def Let_def setTimer_def send_def store_inv_iff
             split: list.splits prod.splits)
next
  case (Match_671 sess b user oid od opp)
  assume "store_inv s"
  then show ?thesis unfolding Match_671
    by (auto simp: match_take_def Let_def split: option.splits)
next
  case (Match_684 sess b oid od p1 p2)
  assume "store_inv s"
  then show ?thesis unfolding Match_684
    by (auto simp: match_pair_def reply_def Let_def Math_random_def send_def store_inv_iff
             split: option.splits dest!: update_member)
qed (simp_all add: reply_def)

lemma start_await_inv:
  "store_inv (fst r) \<Longrightarrow> store_inv (fst (start_await sess ref r))"
  by (cases r; cases "snd r")
     (auto simp: start_await_def reply_def send_def setTimer_def Let_def store_inv_iff)

lemma start_inv: "store_inv s \<Longrightarrow> store_inv (fst (startAction k s))"
proof (cases k)
  case (Start_entry sess)
  assume "store_inv s"
  then show ?thesis unfolding Start_entry
    by (auto simp: start_confirm_def reply_def send_def setTimer_def Let_def store_inv_iff
             spread_game_def
             split: option.splits dest!: update_member delete_member) 
next
  case (Start_741 sess game ref)
  assume "store_inv s"
  then show ?thesis unfolding Start_741 by simp
next
  case (Start_742 sess ref)
  assume "store_inv s"
  then have "store_inv (fst (sendBattleLog (Log_entry ref) s))" by (rule log_inv)
  then show ?thesis unfolding Start_742 startAction.simps by (rule start_await_inv)
next
  case (Start_745 sess ref j)
  assume "store_inv s"
  then have "store_inv (fst (sendBattleLog j s))" by (rule log_inv)
  then show ?thesis unfolding Start_745 startAction.simps by (rule start_await_inv)
qed

lemma fst_lift_status [simp]: "fst (lift_status c r) = fst r"
  by (cases r; cases "snd r") (auto simp: lift_status_def)

lemma step_inv: "store_inv s \<Longrightarrow> store_inv (fst (step t s))"
  by (cases t) (simp_all add: match_inv start_inv timeout_inv log_inv)

lemma launch_inv: "store_inv (world c) \<Longrightarrow> store_inv (world (launch t c))"
  using step_inv[of "world c" t]
  by (cases "step t (world c)"; cases "snd (step t (world c))") (auto simp: launch_def)

lemma resume_inv: "store_inv (world c) \<Longrightarrow> store_inv (world (resume i c))"
proof (cases "map_of (suspended c) i")
  case None
  assume "store_inv (world c)"
  with None show ?thesis by (simp add: resume_def)
next
  case (Some t)
  assume "store_inv (world c)"
  with Some step_inv[of "world c" t] show ?thesis
    by (cases "step t (world c)"; cases "snd (step t (world c))") (auto simp: resume_def)
qed

lemma fire_inv: "store_inv (world c) \<Longrightarrow> store_inv (world (fire i c))"
proof (cases "map_of (timers (world c)) i")
  case None
  assume "store_inv (world c)"
  with None show ?thesis by (simp add: fire_def)
next
  case (Some tm)
  assume inv: "store_inv (world c)"
  show ?thesis
  proof (cases tm)
    case (LobbyTimer sess user cost)
    from inv have "store_inv (world (c\<lparr>world := clearTimer i (world c)\<rparr>))" by simp
    from launch_inv[OF this] Some LobbyTimer show ?thesis by (simp add: fire_def)
  next
    case Placeholder
    with Some inv show ?thesis by (simp add: fire_def)
  next
    case (BattleInterval ref)
    with Some launch_inv[OF inv] show ?thesis by (simp add: fire_def)
  qed
qed

lemma exec_inv: "store_inv (world c) \<Longrightarrow> store_inv (world (exec e c))"
  by (cases e) (simp_all add: launch_inv resume_inv fire_inv)

lemma run_inv: "store_inv (world c) \<Longrightarrow> store_inv (world (run es c))"
  unfolding run_def by (induction es arbitrary: c) (simp_all add: exec_inv)

lemma boot_inv: "store_inv (world (boot tbl rnd))"
  by (simp add: boot_def store_inv_iff)

text \<open>
  In every state the plugin reaches from its start, by whatever interleaving of commands,
  resumptions and timers, the pending and the active games are stored under the id of
  their player 1.
\<close>

lemma reachable_keyed: "keyed_by_player1 (world (run es (boot tbl rnd)))"
  using run_inv[OF boot_inv] by (simp add: store_inv_def)

section \<open>The confirmation gate\<close>

text \<open>
  Claim C4. Let a pending game \<open>g\<close> be stored under the id \<open>k\<close> of its initiator. A
  caller of the start command who has no pending game under their own id, or whose id is
  not the \<open>player1Id\<close> of the game found there, gets the "no pending game" message and
  nothing else happens: the state after the call is the state before it with that message
  appended to the messages sent. The game \<open>g\<close> is then still confirmable: the start
  command of \<open>k\<close>, called next, takes \<open>g\<close> off the pending games, stores it as the
  active game of \<open>k\<close> with \<open>logCount = 0\<close>, and goes on to notify the players.
\<close>

theorem confirm_gate:
  assumes pend: "map_of (pendingGames s) k = Some g"
      and init: "player1Id g = k"
      and rej: "map_of (pendingGames s) (userId sess) = None \<or>
                (\<exists>g'. map_of (pendingGames s) (userId sess) = Some g' \<and>
                      player1Id g' \<noteq> userId sess)"
  shows "step (StartTask (Start_entry sess)) s =
           (s\<lparr>outbox := outbox s @ [(sess, MsgNoPending)]\<rparr>, Finished) \<and>
         (let s' = fst (step (StartTask (Start_entry sess)) s);
              r = step (StartTask (Start_entry \<lparr>userId = k\<rparr>)) s'
          in snd r = Suspended (StartTask (Start_741 \<lparr>userId = k\<rparr> g (nextObj s))) \<and>
             map_of (pendingGames (fst r)) k = None \<and>
             map_of (activeGames (fst r)) k = Some (nextObj s) \<and>
             objs (fst r) (nextObj s) =
               \<lparr>player1Id = k, player2Id = player2Id g,
                player1Session = player1Session g, player2Session = player2Session g,
                player1Bet = player1Bet g, player2Bet = player2Bet g,
                winnerId = winnerId g, logCount = 0, intervalId = nextTimer s\<rparr>)"
proof -
  have rejected: "step (StartTask (Start_entry sess)) s =
      (s\<lparr>outbox := outbox s @ [(sess, MsgNoPending)]\<rparr>, Finished)"
    using rej by (auto simp: start_confirm_def reply_def send_def lift_status_def)
  show ?thesis
    unfolding rejected using pend init
    by (simp add: start_confirm_def spread_game_def caps Let_def AList.delete_conv'
          AList.update_conv')
qed

theorem confirm_gate_witness:
  "map_of (pendingGames paired) ''A'' = Some gameAB \<and>
   player1Id gameAB = ''A'' \<and>
   map_of (pendingGames paired) (userId sessB) = None \<and>
   step (StartTask (Start_entry sessB)) paired =
     (paired\<lparr>outbox := outbox paired @ [(sessB, MsgNoPending)]\<rparr>, Finished)"
proof -
  have h1: "map_of (pendingGames paired) ''A'' = Some gameAB" by code_simp
  have h2: "player1Id gameAB = ''A''" by code_simp
  have h3: "map_of (pendingGames paired) (userId sessB) = None" by code_simp
  from confirm_gate[OF h1 h2 disjI1[OF h3]] h1 h2 h3 show ?thesis by blast
qed

section \<open>Rejected calls of the matching command\<close>

text \<open>
  Claim C9. The matching command first reads the caller's row and changes nothing
  (lines 639-640). When it resumes, in whatever state \<open>s'\<close> the program then is, a
  call without a row, without a bet, with a bet that is not positive, with fewer points
  than bet plus deposit, or by a player who takes part in the lobby, a pending game or an
  active game returns a message to the caller at once and changes nothing: no points
  are written, no lobby entry, pending game or active game is added or removed. (The
  check of line 660 finds player 1 by the key of the game; the stores are keyed by player
  1 in every state the plugin reaches, \<open>reachable_keyed\<close>.)
\<close>

theorem enqueue_rejections:
  assumes keyed: "keyed_by_player1 s'"
      and bad: "user_opt = None \<or> bet_opt = None \<or> (\<exists>b. bet_opt = Some b \<and> b \<le> 0) \<or>
                (\<exists>b u. bet_opt = Some b \<and> user_opt = Some u \<and> points u < b + DEPOSIT) \<or>
                spec_participant s' (userId sess)"
  shows "step (MatchTask (Match_entry sess bet_opt)) s =
           (s, Suspended (MatchTask (Match_640 sess bet_opt (users s (userId sess))))) \<and>
         (\<exists>m. step (MatchTask (Match_640 sess bet_opt user_opt)) s' =
                (s'\<lparr>outbox := outbox s' @ [(sess, m)]\<rparr>, Finished))"
proof -
  from bad participant_checked[OF keyed]
  have "user_opt = None \<or> bet_opt = None \<or> (\<exists>b. bet_opt = Some b \<and> b \<le> 0) \<or>
           (\<exists>b u. bet_opt = Some b \<and> user_opt = Some u \<and> points u < b + DEPOSIT) \<or>
           already_in s' (userId sess)" by blast
  from validate_rejects[OF this]
  obtain m where "match_validate sess bet_opt user_opt s' = reply sess m s'" ..
  then have "step (MatchTask (Match_640 sess bet_opt user_opt)) s' =
                (s'\<lparr>outbox := outbox s' @ [(sess, m)]\<rparr>, Finished)"
    by (simp add: lift_status_def reply_def send_def)
  moreover have "step (MatchTask (Match_entry sess bet_opt)) s =
           (s, Suspended (MatchTask (Match_640 sess bet_opt (users s (userId sess)))))"
    by (simp add: lift_status_def db_get_def)
  ultimately show ?thesis by blast
qed

theorem enqueue_rejections_witness:
  "keyed_by_player1 paired \<and> spec_participant paired (userId sessB) \<and>
   (\<exists>m. step (MatchTask (Match_640 sessB (Some 100) (users paired ''B''))) paired =
          (paired\<lparr>outbox := outbox paired @ [(sessB, m)]\<rparr>, Finished))"
proof -
  have h1: "keyed_by_player1 paired" by code_simp
  have h2: "spec_participant paired (userId sessB)" by code_simp
  from enqueue_rejections[OF h1, of "users paired ''B''" "Some 100" sessB] h1 h2
  show ?thesis by blast
qed

section \<open>Escrow at enqueue and the refund at the lobby timeout\<close>



section \<open>The opponent's row has vanished\<close>

text \<open>
  Claim C8. The caller makes a valid call while the oldest lobby entry belongs to a
  player without a row in the table. Run with nothing in between, the call ends with
  the state it started from, except that the opponent's lobby entry is gone and the
  stale-opponent message has been sent to the caller: no pending game is stored, the
  caller's points are back to what they were, nothing is written for the opponent and
  nothing is sent to the opponent. (The second conjunct shows the segment of lines
  672-675 that drops the entry and writes the caller's refund.)
\<close>

theorem stale_opponent_abort:
  assumes row: "users s (userId sess) = Some user"
      and pos: "0 < b" and enough: "b + DEPOSIT \<le> points user"
      and free: "\<not> already_in s (userId sess)"
      and lobby: "matchingLobby s = (oid, od) # rest" and truthy: "oid \<noteq> []"
      and gone: "users s oid = None"
  shows "run_task (MatchTask (Match_entry sess (Some b))) s =
           (s\<lparr>matchingLobby := AList.delete oid (matchingLobby s),
               outbox := outbox s @ [(sess, MsgStaleOpponent)]\<rparr>, Finished) \<and>
         step (MatchTask (Match_671 sess b (user\<lparr>points := points user - (b + DEPOSIT)\<rparr>)
                 oid od None))
              (s\<lparr>users := (users s)(userId sess \<mapsto> user\<lparr>points := points user - (b + DEPOSIT)\<rparr>)\<rparr>) =
           (s\<lparr>matchingLobby := AList.delete oid (matchingLobby s)\<rparr>,
            Suspended (MatchTask (Match_675 sess)))"
proof -
  from row gone have other: "oid \<noteq> userId sess" by auto
  let ?c = "b + DEPOSIT"
  let ?s1 = "s\<lparr>users := (users s)(userId sess \<mapsto> user\<lparr>points := points user - ?c\<rparr>)\<rparr>"
  have s1: "step (MatchTask (Match_entry sess (Some b))) s =
      (s, Suspended (MatchTask (Match_640 sess (Some b) (Some user))))"
    using row by (simp add: lift_status_def db_get_def)
  have s2: "step (MatchTask (Match_640 sess (Some b) (Some user))) s =
      (?s1, Suspended (MatchTask (Match_665 sess b user)))"
    using row pos enough free by (simp add: lift_status_def validate_cases db_set_points_def)
  have s3: "step (MatchTask (Match_665 sess b user)) ?s1 =
      (?s1, Suspended (MatchTask (Match_671 sess b (user\<lparr>points := points user - ?c\<rparr>) oid od None)))"
    using lobby truthy gone other
    by (simp add: lift_status_def lookup_opponent[where rest = rest])
  have s4: "step (MatchTask (Match_671 sess b (user\<lparr>points := points user - ?c\<rparr>) oid od None)) ?s1 =
      (s\<lparr>matchingLobby := AList.delete oid (matchingLobby s)\<rparr>, Suspended (MatchTask (Match_675 sess)))"
    using row
    by (simp add: lift_status_def take_stale[where cur = "user\<lparr>points := points user - ?c\<rparr>"]
          map_upd_triv)
  have s5: "step (MatchTask (Match_675 sess)) (s\<lparr>matchingLobby := AList.delete oid (matchingLobby s)\<rparr>) =
      (s\<lparr>matchingLobby := AList.delete oid (matchingLobby s),
         outbox := outbox s @ [(sess, MsgStaleOpponent)]\<rparr>, Finished)"
    by (simp add: lift_status_def reply_def send_def)
  have "run_task (MatchTask (Match_entry sess (Some b))) s =
           (s\<lparr>matchingLobby := AList.delete oid (matchingLobby s),
               outbox := outbox s @ [(sess, MsgStaleOpponent)]\<rparr>, Finished)"
    by (simp add: run_task_def run_fuel_unfold s1 s2 s3 s4 s5 del: step.simps)
  with s4 show ?thesis by blast
qed

theorem stale_opponent_abort_witness:
  "users orphaned (userId sessB) = Some (profile ''bob'' 300 1) \<and> (0::int) < 100 \<and>
   100 + DEPOSIT \<le> points (profile ''bob'' 300 1) \<and> \<not> already_in orphaned (userId sessB) \<and>
   matchingLobby orphaned = (''A'', entryA) # [] \<and> ''A'' \<noteq> [] \<and> users orphaned ''A'' = None \<and>
   run_task (MatchTask (Match_entry sessB (Some 100))) orphaned =
     (orphaned\<lparr>matchingLobby := AList.delete ''A'' (matchingLobby orphaned),
               outbox := outbox orphaned @ [(sessB, MsgStaleOpponent)]\<rparr>, Finished)"
proof -
  have h1: "users orphaned (userId sessB) = Some (profile ''bob'' 300 1)" by code_simp
  have h2: "(0::int) < 100" by simp
  have h3: "100 + DEPOSIT \<le> points (profile ''bob'' 300 1)" by code_simp
  have h4: "\<not> already_in orphaned (userId sessB)" by code_simp
  have h5: "matchingLobby orphaned = (''A'', entryA) # []" by code_simp
  have h6: "''A'' \<noteq> []" by simp
  have h7: "users orphaned ''A'' = None" by code_simp
  from stale_opponent_abort[OF h1 h2 h3 h4 h5 h6 h7] h1 h2 h3 h4 h5 h6 h7
  show ?thesis by blast
qed

section \<open>Refunds write an absolute value\<close>

text \<open>
  Claim C10. Let \<open>user\<close> be the caller's row as read at line 640. The timeout timer
  armed at line 709 and the stale-opponent branch both hold \<open>user\<close> with its points
  lowered by bet plus deposit, and both refunds write that value plus bet plus deposit:
  the points of line 640. Whatever the row \<open>cur\<close> holds when the refund is written,
  afterwards its points are those of line 640, so a change made to the row in between
  is overwritten.
\<close>

theorem refund_is_absolute:
  assumes row: "users s' (userId sess) = Some cur"
  shows "(matchingLobby s = [] \<longrightarrow>
            timers (fst (step (MatchTask (Match_665 sess b user)) s)) =
              timers s @ [(nextTimer s,
                 LobbyTimer sess (user\<lparr>points := points user - (b + DEPOSIT)\<rparr>) (b + DEPOSIT))]) \<and>
         (has (matchingLobby s') (userId sess) \<longrightarrow>
            users (fst (step (TimeoutTask
                (Timeout_entry sess (user\<lparr>points := points user - (b + DEPOSIT)\<rparr>) (b + DEPOSIT))) s'))
              (userId sess) = Some (cur\<lparr>points := points user\<rparr>)) \<and>
         (matchingLobby s = (oid, od) # rest \<and> oid \<noteq> [] \<and> users s oid = None \<longrightarrow>
            step (MatchTask (Match_665 sess b user)) s =
              (s, Suspended (MatchTask
                 (Match_671 sess b (user\<lparr>points := points user - (b + DEPOSIT)\<rparr>) oid od None)))) \<and>
         users (fst (step (MatchTask
                 (Match_671 sess b (user\<lparr>points := points user - (b + DEPOSIT)\<rparr>) oid od None)) s'))
           (userId sess) = Some (cur\<lparr>points := points user\<rparr>)"
proof (intro conjI impI)
  assume "matchingLobby s = []"
  then show "timers (fst (step (MatchTask (Match_665 sess b user)) s)) =
              timers s @ [(nextTimer s,
                 LobbyTimer sess (user\<lparr>points := points user - (b + DEPOSIT)\<rparr>) (b + DEPOSIT))]"
    by (simp add: lift_status_def lookup_empty)
next
  assume "has (matchingLobby s') (userId sess)"
  with row show "users (fst (step (TimeoutTask
                (Timeout_entry sess (user\<lparr>points := points user - (b + DEPOSIT)\<rparr>) (b + DEPOSIT))) s'))
              (userId sess) = Some (cur\<lparr>points := points user\<rparr>)"
    by (simp add: lift_status_def db_set_points_def)
next
  assume "matchingLobby s = (oid, od) # rest \<and> oid \<noteq> [] \<and> users s oid = None"
  then show "step (MatchTask (Match_665 sess b user)) s =
              (s, Suspended (MatchTask
                 (Match_671 sess b (user\<lparr>points := points user - (b + DEPOSIT)\<rparr>) oid od None)))"
    by (simp add: lift_status_def lookup_opponent[where rest = rest])
next
  from row show "users (fst (step (MatchTask
                 (Match_671 sess b (user\<lparr>points := points user - (b + DEPOSIT)\<rparr>) oid od None)) s'))
           (userId sess) = Some (cur\<lparr>points := points user\<rparr>)"
    by (simp add: lift_status_def take_stale[where cur = cur])
qed

theorem refund_is_absolute_witness:
  "users waiting_C_richer (userId sessC) = Some (profile ''carol'' 48 1) \<and>
   matchingLobby fresh = [] \<and> has (matchingLobby waiting_C_richer) (userId sessC) \<and>
   timers (fst (step (MatchTask (Match_665 sessC 10 (profile ''carol'' 50 1))) fresh)) =
     timers fresh @ [(nextTimer fresh, LobbyTimer sessC (profile ''carol'' 38 1) 12)] \<and>
   balance waiting_C_richer ''C'' = 48 \<and>
   balance (fst (step (TimeoutTask (Timeout_entry sessC (profile ''carol'' 38 1) 12))
                   waiting_C_richer)) ''C'' = 50"
proof -
  have h1: "users waiting_C_richer (userId sessC) = Some (profile ''carol'' 48 1)" by code_simp
  have h2: "matchingLobby fresh = []" by code_simp
  have h3: "has (matchingLobby waiting_C_richer) (userId sessC)" by code_simp
  have b0: "balance waiting_C_richer ''C'' = 48" by code_simp
  have uid: "userId sessC = ''C''" by (simp add: sessC_def)
  have snap: "(profile ''carol'' 50 1)\<lparr>points := points (profile ''carol'' 50 1) - (10 + DEPOSIT)\<rparr>
      = profile ''carol'' 38 1" "10 + DEPOSIT = 12" "points (profile ''carol'' 50 1) = 50"
    by (simp_all add: profile_def DEPOSIT_def)
  note inst = refund_is_absolute[OF h1, of fresh 10 "profile ''carol'' 50 1",
                 unfolded snap(1), unfolded snap(2,3)]
  from inst h2 have r1: "timers (fst (step (MatchTask (Match_665 sessC 10 (profile ''carol'' 50 1))) fresh)) =
     timers fresh @ [(nextTimer fresh, LobbyTimer sessC (profile ''carol'' 38 1) 12)]"
    by blast
  from inst h3 have "users (fst (step (TimeoutTask (Timeout_entry sessC (profile ''carol'' 38 1) 12))
                   waiting_C_richer)) (userId sessC) = Some ((profile ''carol'' 48 1)\<lparr>points := 50\<rparr>)"
    by blast
  then have r2: "balance (fst (step (TimeoutTask (Timeout_entry sessC (profile ''carol'' 38 1) 12))
                   waiting_C_richer)) ''C'' = 50"
    by (simp add: balance_def uid)
  from h1 h2 h3 b0 r1 r2 show ?thesis by blast
qed

section \<open>The draw of the winner\<close>




section \<open>A lobby timeout during pairing\<close>

text \<open>
  Claim C2 says that the opponent's timer is cancelled and the opponent's entry removed
  before the pairing handler reaches a suspension point, so that a lobby timeout firing
  at the same time finds the entry gone and refunds nothing. In the code the entry is
  picked at line 668 and removed at lines 679-680, with the \<open>await\<close> of line 671 in
  between. In the schedule \<open>race_pairing\<close> A's timer fires during that \<open>await\<close>:
  the callback finds A's entry, removes it, writes A's refund (A is back at 500 points)
  and tells A that no opponent was found, and the pairing handler then stores the
  pending game of A against B all the same. A's entry has been both timed out and paired.
\<close>

theorem pairing_timeout_race:
  "(let c = run race_pairing (boot tbl3 (\<lambda>_. 0.3))
    in suspended c = [] \<and>
       matchingLobby (world c) = [] \<and>
       pendingGames (world c) = [(''A'', gameAB)] \<and>
       outbox (world c) =
         [(sessA, MsgEnteredLobby 60 100 2 398),
          (sessA, MsgMatchedPlayer1 ''bob'' 60),
          (sessB, MsgMatchedPlayer2 ''alice''),
          (sessB, MsgMatched),
          (sessA, MsgLobbyTimeout 102 500)] \<and>
       balance (world c) ''A'' = 500 \<and> balance (world c) ''B'' = 198)"
  by code_simp

section \<open>Two calls of one player\<close>

text \<open>
  Claim C3 says that at every instant a player appears in at most one of the lobby, the
  pending games and the active games. The check of line 660 and the insertions of lines
  700 and 718 are separated by the \<open>await\<close>s of lines 665 to 684. In the schedule
  \<open>race_double\<close> two calls of B pass the check before either has stored anything; at
  the end B is player 2 of the pending game of A and has a lobby entry of their own: B
  appears in two stores.
\<close>

theorem double_enqueue_race:
  "(let c = run race_double (boot tbl3 (\<lambda>_. 0.3))
    in suspended c = [] \<and>
       has (matchingLobby (world c)) ''B'' \<and>
       pendingGames (world c) = [(''A'', gameAB)] \<and> player2Id gameAB = ''B'' \<and>
       appearances (world c) ''B'' = 2)"
  by code_simp

section \<open>A whole game\<close>

lemma run_fuel_step:
  "step t s = (s', Suspended t') \<Longrightarrow> run_fuel (Suc n) t s = run_fuel n t' s'"
  by simp

lemma pair_run:
  assumes row: "users s (userId sess) = Some user"
      and pos: "0 < b" and enough: "b + DEPOSIT \<le> points user"
      and free: "\<not> already_in s (userId sess)"
      and lobby: "matchingLobby s = (oid, od) # rest" and truthy: "oid \<noteq> []"
      and opp: "users s oid = Some d1"
  shows "run_task (MatchTask (Match_entry sess (Some b))) s =
     (s\<lparr>users := (users s)(userId sess \<mapsto> user\<lparr>points := points user - (b + DEPOSIT)\<rparr>),
         timers := AList.delete (timeoutId od) (timers s),
         matchingLobby := AList.delete oid (matchingLobby s),
         randomPos := randomPos s + 1,
         pendingGames := AList.update oid
            (drawn_game sess b oid od d1 user (randoms s (randomPos s))) (pendingGames s),
         outbox := outbox s @
            [(session od, MsgMatchedPlayer1 (username user) 60),
             (sess, MsgMatchedPlayer2 (username d1)), (sess, MsgMatched)]\<rparr>, Finished)"
proof -
  from free lobby have other: "oid \<noteq> userId sess"
    by (auto simp: already_in_def has_def)
  let ?c = "b + DEPOSIT"
  let ?u = "user\<lparr>points := points user - ?c\<rparr>"
  let ?s1 = "s\<lparr>users := (users s)(userId sess \<mapsto> ?u)\<rparr>"
  have s1: "step (MatchTask (Match_entry sess (Some b))) s =
      (s, Suspended (MatchTask (Match_640 sess (Some b) (Some user))))"
    using row by (simp add: lift_status_def db_get_def)
  have s2: "step (MatchTask (Match_640 sess (Some b) (Some user))) s =
      (?s1, Suspended (MatchTask (Match_665 sess b user)))"
    using row pos enough free by (simp add: lift_status_def validate_cases db_set_points_def)
  have s3: "step (MatchTask (Match_665 sess b user)) ?s1 =
      (?s1, Suspended (MatchTask (Match_671 sess b ?u oid od (Some d1))))"
    using lobby truthy opp other
    by (simp add: lift_status_def lookup_opponent[where rest = rest])
  have tail: "run_fuel 4 (MatchTask (Match_671 sess b ?u oid od (Some d1))) ?s1 =
     (?s1\<lparr>timers := AList.delete (timeoutId od) (timers ?s1),
         matchingLobby := AList.delete oid (matchingLobby ?s1),
         randomPos := randomPos ?s1 + 1,
         pendingGames := AList.update oid
            (drawn_game sess b oid od d1 ?u (randoms ?s1 (randomPos ?s1))) (pendingGames ?s1),
         outbox := outbox ?s1 @
            [(session od, MsgMatchedPlayer1 (username ?u) 60),
             (sess, MsgMatchedPlayer2 (username d1)), (sess, MsgMatched)]\<rparr>, Finished)"
    using pair_from_take[of ?s1 oid d1 sess ?u b ?u od d1] opp other
    by (simp add: run_task_def)
  have same: "drawn_game sess b oid od d1 ?u = drawn_game sess b oid od d1 user"
    by (simp add: drawn_game_def fun_eq_iff)
  have "run_task (MatchTask (Match_entry sess (Some b))) s =
        run_fuel (Suc (Suc (Suc 4))) (MatchTask (Match_entry sess (Some b))) s"
    by (simp add: run_task_def eval_nat_numeral del: step.simps run_fuel.simps)
  also have "\<dots> = run_fuel (Suc (Suc 4)) (MatchTask (Match_640 sess (Some b) (Some user))) s"
    by (rule run_fuel_step[OF s1])
  also have "\<dots> = run_fuel (Suc 4) (MatchTask (Match_665 sess b user)) ?s1"
    by (rule run_fuel_step[OF s2])
  also have "\<dots> = run_fuel 4 (MatchTask (Match_671 sess b ?u oid od (Some d1))) ?s1"
    by (rule run_fuel_step[OF s3])
  also note tail
  finally show ?thesis by (simp add: same)
qed

lemma tick_on_spread:
  assumes obj: "objs s ref = spread_game g n tid" and early: "n + 1 < 5"
      and w: "users s (winnerId g) = Some wd" and l: "users s (loserId g) = Some ld"
  shows "interval_tick ref s =
     s\<lparr>objs := (objs s)(ref := spread_game g (n + 1) tid),
        randomPos := randomPos s + 2,
        outbox := outbox s @ tick_pair g (randoms s) (randomPos s) (n + 1) wd ld\<rparr>"
  using interval_tick_early[of s ref wd ld] assms by (simp add: tick_pair_def)

lemma last_tick_on_spread:
  assumes obj: "objs s ref = spread_game g 4 tid"
      and win: "winnerId g = player1Id g \<or> winnerId g = player2Id g"
      and two: "player1Id g \<noteq> player2Id g"
      and w: "users s (winnerId g) = Some wd" and l: "users s (loserId g) = Some ld"
  shows "interval_tick ref s =
     s\<lparr>objs := (objs s)(ref := spread_game g 5 tid),
        randomPos := randomPos s + 2,
        timers := AList.delete tid (timers s),
        activeGames := AList.delete (player1Id g) (activeGames s),
        users := (users s)(winnerId g \<mapsto> wd\<lparr>points := points wd + (loserBet g + DEPOSIT)\<rparr>),
        outbox := outbox s @ tick_pair g (randoms s) (randomPos s) 5 wd ld @
                  settlement_pair g wd ld\<rparr>"
  using interval_tick_last[of s ref "spread_game g 4 tid" wd ld] assms
  by (simp add: tick_pair_def loserBet_def settlement_pair_def)

text \<open>
  The states a confirmed game goes through: after the start command, and after each of
  the four firings of the interval that follow it.
\<close>

lemma battle_run:
  assumes pend: "map_of (pendingGames s) (userId sess) = Some g"
      and init: "player1Id g = userId sess"
      and win: "winnerId g = player1Id g \<or> winnerId g = player2Id g"
      and two: "player1Id g \<noteq> player2Id g"
      and w: "users s (winnerId g) = Some wd" and l: "users s (loserId g) = Some ld"
  defines "ref \<equiv> nextObj s" and "tid \<equiv> nextTimer s + 1"
      and "p \<equiv> randomPos s" and "rnd \<equiv> randoms s"
  defines "s1 \<equiv> s\<lparr>pendingGames := AList.delete (userId sess) (pendingGames s),
         timers := timers s @ [(nextTimer s, Placeholder), (tid, BattleInterval ref)],
         nextTimer := nextTimer s + 2,
         objs := (objs s)(ref := spread_game g 1 tid),
         nextObj := nextObj s + 1,
         activeGames := AList.update (userId sess) ref (activeGames s),
         randomPos := p + 2,
         outbox := outbox s @
           [(player1Session g, MsgGameStart), (player2Session g, MsgGameStart)] @
           tick_pair g rnd p 1 wd ld @ [(sess, MsgStarted)]\<rparr>"
  shows "fst (run_task (StartTask (Start_entry sess)) s) = s1"
    and "interval_tick ref s1 =
           s1\<lparr>objs := (objs s1)(ref := spread_game g 2 tid), randomPos := p + 4,
               outbox := outbox s1 @ tick_pair g rnd (p + 2) 2 wd ld\<rparr>"
    and "(interval_tick ref ^^ 2) s1 =
           s1\<lparr>objs := (objs s1)(ref := spread_game g 3 tid), randomPos := p + 6,
               outbox := outbox s1 @ tick_pair g rnd (p + 2) 2 wd ld @
                         tick_pair g rnd (p + 4) 3 wd ld\<rparr>"
    and "(interval_tick ref ^^ 3) s1 =
           s1\<lparr>objs := (objs s1)(ref := spread_game g 4 tid), randomPos := p + 8,
               outbox := outbox s1 @ tick_pair g rnd (p + 2) 2 wd ld @
                         tick_pair g rnd (p + 4) 3 wd ld @ tick_pair g rnd (p + 6) 4 wd ld\<rparr>"
    and "(interval_tick ref ^^ 4) s1 =
           s1\<lparr>objs := (objs s1)(ref := spread_game g 5 tid), randomPos := p + 10,
               timers := AList.delete tid (timers s1),
               activeGames := AList.delete (player1Id g) (activeGames s1),
               users := (users s)(winnerId g \<mapsto>
                           wd\<lparr>points := points wd + (loserBet g + DEPOSIT)\<rparr>),
               outbox := outbox s1 @ tick_pair g rnd (p + 2) 2 wd ld @
                         tick_pair g rnd (p + 4) 3 wd ld @ tick_pair g rnd (p + 6) 4 wd ld @
                         tick_pair g rnd (p + 8) 5 wd ld @ settlement_pair g wd ld\<rparr>"
proof -
  let ?s2 = "s1\<lparr>objs := (objs s1)(ref := spread_game g 2 tid), randomPos := p + 4,
               outbox := outbox s1 @ tick_pair g rnd (p + 2) 2 wd ld\<rparr>"
  let ?s3 = "s1\<lparr>objs := (objs s1)(ref := spread_game g 3 tid), randomPos := p + 6,
               outbox := outbox s1 @ tick_pair g rnd (p + 2) 2 wd ld @
                         tick_pair g rnd (p + 4) 3 wd ld\<rparr>"
  let ?s4 = "s1\<lparr>objs := (objs s1)(ref := spread_game g 4 tid), randomPos := p + 8,
               outbox := outbox s1 @ tick_pair g rnd (p + 2) 2 wd ld @
                         tick_pair g rnd (p + 4) 3 wd ld @ tick_pair g rnd (p + 6) 4 wd ld\<rparr>"
  let ?s5 = "s1\<lparr>objs := (objs s1)(ref := spread_game g 5 tid), randomPos := p + 10,
               timers := AList.delete tid (timers s1),
               activeGames := AList.delete (player1Id g) (activeGames s1),
               users := (users s)(winnerId g \<mapsto>
                           wd\<lparr>points := points wd + (loserBet g + DEPOSIT)\<rparr>),
               outbox := outbox s1 @ tick_pair g rnd (p + 2) 2 wd ld @
                         tick_pair g rnd (p + 4) 3 wd ld @ tick_pair g rnd (p + 6) 4 wd ld @
                         tick_pair g rnd (p + 8) 5 wd ld @ settlement_pair g wd ld\<rparr>"
  show start: "fst (run_task (StartTask (Start_entry sess)) s) = s1"
    unfolding start_run[OF pend init w l] s1_def ref_def tid_def p_def rnd_def
    by (simp add: tick_pair_def)
  have t2: "interval_tick ref s1 = ?s2"
    using tick_on_spread[of s1 ref g 1 tid wd ld] w l
    by (simp add: s1_def p_def rnd_def eval_nat_numeral)
  have t3: "interval_tick ref ?s2 = ?s3"
    using tick_on_spread[of ?s2 ref g 2 tid wd ld] w l
    by (simp add: s1_def p_def rnd_def eval_nat_numeral)
  have t4: "interval_tick ref ?s3 = ?s4"
    using tick_on_spread[of ?s3 ref g 3 tid wd ld] w l
    by (simp add: s1_def p_def rnd_def eval_nat_numeral)
  have t5: "interval_tick ref ?s4 = ?s5"
    using last_tick_on_spread[of ?s4 ref g tid wd ld] win two w l
    by (simp add: s1_def p_def rnd_def eval_nat_numeral)
  show "interval_tick ref s1 = ?s2" by (rule t2)
  have "(interval_tick ref ^^ 2) s1 = interval_tick ref (interval_tick ref s1)"
    by (simp add: eval_nat_numeral)
  then show two_ticks: "(interval_tick ref ^^ 2) s1 = ?s3" by (simp only: t2 t3)
  have "(interval_tick ref ^^ 3) s1 = interval_tick ref ((interval_tick ref ^^ 2) s1)"
    by (simp add: eval_nat_numeral)
  then show three: "(interval_tick ref ^^ 3) s1 = ?s4" by (simp only: two_ticks t4)
  have "(interval_tick ref ^^ 4) s1 = interval_tick ref ((interval_tick ref ^^ 3) s1)"
    by (simp add: eval_nat_numeral)
  then show "(interval_tick ref ^^ 4) s1 = ?s5" by (simp only: three t5)
qed

text \<open>
  The messages of a game whose calls run one after the other. The initiator starts a
  pending game whose two players have rows in the table, and each call of
  \<open>sendBattleLog\<close> made by the interval ends before the interval fires again. Then:
  \<^item> when the start command has sent the first tick (\<open>(1/5)\<close>) to both players it is
    still suspended and the interval is not armed yet; it arms the interval and returns
    only afterwards, so the first tick precedes the reply of the command;
  \<^item> the first, second and third firing of the interval send the ticks \<open>(2/5)\<close>,
    \<open>(3/5)\<close>, \<open>(4/5)\<close> to both players and nothing else;
  \<^item> the fourth firing sends the tick \<open>(5/5)\<close> to both players and then the two
    result messages, cancels the interval and removes the active game.
\<close>

lemma ordered_ticks:
  assumes pend: "map_of (pendingGames s) (userId sess) = Some g"
      and init: "player1Id g = userId sess"
      and win: "winnerId g = player1Id g \<or> winnerId g = player2Id g"
      and two: "player1Id g \<noteq> player2Id g"
      and w: "users s (winnerId g) = Some wd" and l: "users s (loserId g) = Some ld"
  shows "(let ref = nextObj s; tid = nextTimer s + 1; p = randomPos s; rnd = randoms s;
              opening = [(player1Session g, MsgGameStart), (player2Session g, MsgGameStart)] @
                        tick_pair g rnd p 1 wd ld;
              mid = run_fuel 6 (StartTask (Start_entry sess)) s;
              s1 = fst (run_task (StartTask (Start_entry sess)) s);
              later = tick_pair g rnd (p + 2) 2 wd ld @ tick_pair g rnd (p + 4) 3 wd ld @
                      tick_pair g rnd (p + 6) 4 wd ld
          in snd mid = Suspended (StartTask (Start_745 sess ref (Log_822 ref))) \<and>
             outbox (fst mid) = outbox s @ opening \<and>
             timers (fst mid) = timers s @ [(nextTimer s, Placeholder)] \<and>
             snd (run_task (StartTask (Start_entry sess)) s) = Finished \<and>
             outbox s1 = outbox s @ opening @ [(sess, MsgStarted)] \<and>
             timers s1 = timers s @ [(nextTimer s, Placeholder), (tid, BattleInterval ref)] \<and>
             map_of (activeGames s1) (userId sess) = Some ref \<and>
             outbox (interval_tick ref s1) = outbox s1 @ tick_pair g rnd (p + 2) 2 wd ld \<and>
             outbox ((interval_tick ref ^^ 2) s1) =
               outbox s1 @ tick_pair g rnd (p + 2) 2 wd ld @ tick_pair g rnd (p + 4) 3 wd ld \<and>
             outbox ((interval_tick ref ^^ 3) s1) = outbox s1 @ later \<and>
             outbox ((interval_tick ref ^^ 4) s1) =
               outbox s1 @ later @ tick_pair g rnd (p + 8) 5 wd ld @ settlement_pair g wd ld \<and>
             map_of (timers ((interval_tick ref ^^ 4) s1)) tid = None \<and>
             map_of (activeGames ((interval_tick ref ^^ 4) s1)) (userId sess) = None)"
proof -
  note run = battle_run[OF pend init win two w l]
  have mid: "run_fuel 6 (StartTask (Start_entry sess)) s =
     (s\<lparr>pendingGames := AList.delete (userId sess) (pendingGames s),
         timers := timers s @ [(nextTimer s, Placeholder)],
         nextTimer := nextTimer s + 1,
         objs := (objs s)(nextObj s := spread_game g 1 (nextTimer s)),
         nextObj := nextObj s + 1,
         activeGames := AList.update (userId sess) (nextObj s) (activeGames s),
         randomPos := randomPos s + 2,
         outbox := outbox s @
           [(player1Session g, MsgGameStart), (player2Session g, MsgGameStart),
            (player1Session g, tick_message (randoms s) (randomPos s) 1 wd ld),
            (player2Session g, tick_message (randoms s) (randomPos s) 1 wd ld)]\<rparr>,
      Suspended (StartTask (Start_745 sess (nextObj s) (Log_822 (nextObj s)))))"
    by (rule start_first_tick[OF pend init w l])
  have fin: "snd (run_task (StartTask (Start_entry sess)) s) = Finished"
    unfolding start_run[OF pend init w l] by simp
  show ?thesis
    unfolding Let_def run mid fin
    by (simp add: tick_pair_def AList.delete_conv' AList.update_conv' init)
qed

lemma ordered_ticks_example:
  "map_of (pendingGames paired) (userId sessA) = Some gameAB \<and>
   player1Id gameAB = userId sessA \<and> winnerId gameAB = player1Id gameAB \<and>
   player1Id gameAB \<noteq> player2Id gameAB \<and>
   users paired (winnerId gameAB) = Some (profile ''alice'' 398 1) \<and>
   users paired (loserId gameAB) = Some (profile ''bob'' 198 1) \<and>
   length (outbox ((interval_tick (nextObj paired) ^^ 4)
             (fst (run_task (StartTask (Start_entry sessA)) paired)))) =
     length (outbox paired) + 15 \<and>
   map_of (activeGames ((interval_tick (nextObj paired) ^^ 4)
             (fst (run_task (StartTask (Start_entry sessA)) paired)))) (userId sessA) = None"
proof -
  have h1: "map_of (pendingGames paired) (userId sessA) = Some gameAB" by code_simp
  have h2: "player1Id gameAB = userId sessA" by code_simp
  have h3: "winnerId gameAB = player1Id gameAB" by code_simp
  have h4: "player1Id gameAB \<noteq> player2Id gameAB" by code_simp
  have h5: "users paired (winnerId gameAB) = Some (profile ''alice'' 398 1)" by code_simp
  have h6: "users paired (loserId gameAB) = Some (profile ''bob'' 198 1)" by code_simp
  from ordered_ticks[OF h1 h2 disjI1[OF h3] h4 h5 h6]
  have "length (outbox ((interval_tick (nextObj paired) ^^ 4)
             (fst (run_task (StartTask (Start_entry sessA)) paired)))) =
     length (outbox paired) + 15 \<and>
   map_of (activeGames ((interval_tick (nextObj paired) ^^ 4)
             (fst (run_task (StartTask (Start_entry sessA)) paired)))) (userId sessA) = None"
    by (simp add: Let_def tick_pair_def settlement_pair_def)
  with h1 h2 h3 h4 h5 h6 show ?thesis by blast
qed

section \<open>A tick that overlaps the next one\<close>

text \<open>
  Claim C7 says that every confirmed game produces five ticks and then exactly one pair
  of result messages, the interval being cancelled and the game removed at the fifth
  tick. \<open>sendBattleLog\<close> counts the tick in the shared \<open>game\<close> object on entry (line
  810) and compares the count with 5 only after its four \<open>await\<close>s (line 824). In the
  schedule \<open>overlapping_ticks\<close> the call that sends tick 4 is still suspended when the
  interval fires again: the later call counts 5, sends tick 5 and settles; the earlier
  call then resumes, finds the count at 5 as well and settles a second time. The players
  receive two pairs of result messages and the winner is credited twice (A ends with
  602 points instead of 500).
\<close>

theorem overlapping_ticks_settle_twice:
  "(let before = run (take 30 overlapping_ticks) (boot tbl3 (\<lambda>_. 0.3));
        c = run overlapping_ticks (boot tbl3 (\<lambda>_. 0.3))
    in suspended before = [(5, LogTask (Log_822 0))] \<and>
       map_of (timers (world before)) 2 = Some (BattleInterval 0) \<and>
       suspended c = [] \<and> activeGames (world c) = [] \<and>
       map_of (timers (world c)) 2 = None \<and>
       drop 13 (outbox (world c)) =
         [(sessA, MsgBattleLog 4 5 1 ''alice'' 1 1 ''bob'' 1),
          (sessB, MsgBattleLog 4 5 1 ''alice'' 1 1 ''bob'' 1),
          (sessA, MsgBattleLog 5 5 1 ''alice'' 1 1 ''bob'' 1),
          (sessB, MsgBattleLog 5 5 1 ''alice'' 1 1 ''bob'' 1),
          (sessA, MsgWon ''alice'' 100 2 500),
          (sessB, MsgLost ''bob'' 100 2 198),
          (sessA, MsgWon ''alice'' 100 2 602),
          (sessB, MsgLost ''bob'' 100 2 198)] \<and>
       balance (world c) ''A'' = 602 \<and> balance (world c) ''B'' = 198)"
  by code_simp

section \<open>The points of a game\<close>

text \<open>
  Claim C1 says that the two players own as many points after settlement as before they
  enqueued. In the end-to-end scenario A (500 points) and B (300 points) bet 100 each and
  A wins: after settlement A owns 500 and B owns 198, 698 points instead of 800.
\<close>

theorem points_not_conserved:
  "(let c0 = boot tbl3 (\<lambda>_. 0.3); c = run full_game c0
    in suspended c = [] \<and> pendingGames (world c) = [] \<and> activeGames (world c) = [] \<and>
       (sessA, MsgWon ''alice'' 100 2 500) \<in> set (outbox (world c)) \<and>
       (sessB, MsgLost ''bob'' 100 2 198) \<in> set (outbox (world c)) \<and>
       balance (world c0) ''A'' = 500 \<and> balance (world c0) ''B'' = 300 \<and>
       balance (world c) ''A'' = 500 \<and> balance (world c) ''B'' = 198 \<and>
       balance (world c) ''A'' + balance (world c) ''B'' \<noteq>
       balance (world c0) ''A'' + balance (world c0) ''B'')"
  by code_simp

lemma accounting_core:
  assumes rowa: "users s0 a = Some ua" and rowb: "users s0 b = Some ub"
      and diff: "a \<noteq> b" and truthy: "a \<noteq> []"
      and posa: "0 < ba" and posb: "0 < bb"
      and enougha: "ba + DEPOSIT \<le> points ua" and enoughb: "bb + DEPOSIT \<le> points ub"
      and freea: "\<not> already_in s0 a" and freeb: "\<not> already_in s0 b"
      and empty: "matchingLobby s0 = []"
      and s1: "s1 = fst (run_task (MatchTask (Match_entry \<lparr>userId = a\<rparr> (Some ba))) s0)"
      and s2: "s2 = fst (run_task (MatchTask (Match_entry \<lparr>userId = b\<rparr> (Some bb))) s1)"
      and s3: "s3 = fst (run_task (StartTask (Start_entry \<lparr>userId = a\<rparr>)) s2)"
      and s4: "s4 = (interval_tick (nextObj s0) ^^ 3) s3"
      and s5: "s5 = interval_tick (nextObj s0) s4"
      and wn: "winner = (if randoms s0 (randomPos s0) < 0.5 + 0.05 * real_of_int (lv ua - lv ub)
                         then a else b)"
      and ls: "loser = (if winner = a then b else a)"
      and st: "loser_stake = (if winner = a then bb else ba)"
  shows "map_option winnerId (map_of (pendingGames s2) a) = Some winner \<and>
         map_of (activeGames s4) a = Some (nextObj s0) \<and>
         map_of (activeGames s5) a = None \<and>
         balance s5 winner = balance s4 winner + (loser_stake + DEPOSIT) \<and>
         balance s5 loser = balance s4 loser \<and>
         balance s4 loser = balance s0 loser - (loser_stake + DEPOSIT)"
proof -
  let ?sa = "\<lparr>userId = a\<rparr>" and ?sb = "\<lparr>userId = b\<rparr>"
  let ?ua = "ua\<lparr>points := points ua - (ba + DEPOSIT)\<rparr>"
  let ?ub = "ub\<lparr>points := points ub - (bb + DEPOSIT)\<rparr>"
  let ?entry = "\<lparr>bet = ba, session = ?sa, timeoutId = nextTimer s0\<rparr>"
  let ?r = "randoms s0 (randomPos s0)"
  let ?g = "drawn_game ?sb bb a ?entry ?ua ub ?r"
  let ?s1 = "s0\<lparr>users := (users s0)(a \<mapsto> ?ua),
         timers := timers s0 @ [(nextTimer s0, LobbyTimer ?sa ?ua (ba + DEPOSIT))],
         nextTimer := nextTimer s0 + 1,
         matchingLobby := [(a, ?entry)],
         outbox := outbox s0 @ [(?sa, MsgEnteredLobby 60 ba DEPOSIT (points ua - (ba + DEPOSIT)))]\<rparr>"
  have e1: "s1 = ?s1"
    unfolding s1 using enter_lobby_run[of s0 ?sa ua ba] rowa posa enougha freea empty by simp
  have freeb1: "\<not> already_in s1 b"
    using freeb diff unfolding e1 by (simp add: already_in_def has_def)
  have lob1: "matchingLobby s1 = (a, ?entry) # []" and rowb1: "users s1 b = Some ub"
    and rowa1: "users s1 a = Some ?ua" and rnd1: "randoms s1 (randomPos s1) = ?r"
    and obj1: "nextObj s1 = nextObj s0"
    unfolding e1 using diff rowb by simp_all
  have run2: "run_task (MatchTask (Match_entry ?sb (Some bb))) s1 =
     (s1\<lparr>users := (users s1)(userId ?sb \<mapsto> ?ub),
         timers := AList.delete (timeoutId ?entry) (timers s1),
         matchingLobby := AList.delete a (matchingLobby s1),
         randomPos := randomPos s1 + 1,
         pendingGames := AList.update a
            (drawn_game ?sb bb a ?entry ?ua ub (randoms s1 (randomPos s1))) (pendingGames s1),
         outbox := outbox s1 @
            [(session ?entry, MsgMatchedPlayer1 (username ub) 60),
             (?sb, MsgMatchedPlayer2 (username ?ua)), (?sb, MsgMatched)]\<rparr>, Finished)"
    by (rule pair_run[where rest = "[]"]) (use rowb1 posb enoughb freeb1 lob1 truthy rowa1 in simp_all)
  have pend: "map_of (pendingGames s2) (userId ?sa) = Some ?g"
    unfolding s2 run2 rnd1 by (simp add: AList.update_conv')
  have users2: "users s2 = (users s0)(a \<mapsto> ?ua, b \<mapsto> ?ub)"
    unfolding s2 run2 unfolding e1 by simp
  have obj2: "nextObj s2 = nextObj s0"
    unfolding s2 run2 using obj1 by simp
  have flds: "player1Id ?g = a" "player2Id ?g = b" "player1Bet ?g = ba" "player2Bet ?g = bb"
    by (simp_all add: drawn_game_def)
  have wg: "winnerId ?g = winner" unfolding wn by (simp add: drawn_game_def)
  have wab: "winner = a \<or> winner = b" unfolding wn by simp
  have init: "player1Id ?g = userId ?sa" by (simp add: flds)
  have two: "player1Id ?g \<noteq> player2Id ?g" using diff by (simp add: flds)
  have win: "winnerId ?g = player1Id ?g \<or> winnerId ?g = player2Id ?g"
    using wab unfolding wg flds .
  have lg: "loserId ?g = loser"
    unfolding loserId_def wg flds ls by simp
  have lab: "loser \<noteq> winner" "loser = a \<or> loser = b"
    using wab diff unfolding ls by auto
  obtain wd where w: "users s2 (winnerId ?g) = Some wd"
      and wpts: "points wd = balance s0 winner - ((if winner = a then ba else bb) + DEPOSIT)"
    using wab diff rowa rowb unfolding wg users2 by (auto simp: balance_def)
  obtain ld where l: "users s2 (loserId ?g) = Some ld"
      and lpts: "points ld = balance s0 loser - ((if loser = a then ba else bb) + DEPOSIT)"
    using lab diff rowa rowb unfolding lg users2 by (auto simp: balance_def)
  have lb: "loserBet ?g = loser_stake"
    unfolding loserBet_def wg flds st using wab diff by auto
  note run = battle_run[OF pend init win two w l, unfolded obj2]
  have e3: "s3 = fst (run_task (StartTask (Start_entry ?sa)) s2)" by (rule s3)
  have users4: "users s4 = users s2" and act4: "map_of (activeGames s4) a = Some (nextObj s0)"
    unfolding s4 e3 run(1) run(4) by (simp_all add: AList.update_conv')
  have "s5 = (interval_tick (nextObj s0) ^^ 4) s3"
    unfolding s5 s4 by (simp add: eval_nat_numeral)
  then have users5: "users s5 = (users s2)(winner \<mapsto> wd\<lparr>points := points wd + (loser_stake + DEPOSIT)\<rparr>)"
      and act5: "map_of (activeGames s5) a = None"
    unfolding e3 run(1) run(5) wg lb flds by (simp_all add: AList.delete_conv')
  have b4w: "balance s4 winner = points wd"
    using w[unfolded wg] by (simp add: balance_def users4)
  have b4l: "balance s4 loser = points ld"
    using l[unfolded lg] by (simp add: balance_def users4)
  have b5w: "balance s5 winner = points wd + (loser_stake + DEPOSIT)"
    by (simp add: balance_def users5)
  have b5l: "balance s5 loser = points ld"
    using l[unfolded lg] lab(1) by (simp add: balance_def users5)
  have lstake: "(if loser = a then ba else bb) = loser_stake"
    unfolding ls st using wab diff by auto
  have "map_option winnerId (map_of (pendingGames s2) a) = Some winner"
    using pend wg by simp
  with act4 act5 b4w b4l b5w b5l lpts lstake show ?thesis by simp
qed

text \<open>
  Claim C1, as the code has it. A enters the empty lobby with stake \<open>ba\<close>, B is paired
  with A with stake \<open>bb\<close>, A starts the game and the interval fires four times, each
  call running to its end before the next event. The game is active before the last firing and gone after it;
  the last firing (the settlement) raises the winner's balance by exactly the loser's
  stake plus the deposit and leaves the loser's balance as it is; the loser's balance
  is, before and after settlement, the balance before enqueueing less the loser's stake
  and the deposit. (Nothing is said about the sum of the two balances.)
\<close>

theorem settlement_accounting:
  assumes rowa: "users s0 a = Some ua" and rowb: "users s0 b = Some ub"
      and diff: "a \<noteq> b" and truthy: "a \<noteq> []"
      and posa: "0 < ba" and posb: "0 < bb"
      and enougha: "ba + DEPOSIT \<le> points ua" and enoughb: "bb + DEPOSIT \<le> points ub"
      and freea: "\<not> already_in s0 a" and freeb: "\<not> already_in s0 b"
      and empty: "matchingLobby s0 = []"
  shows "(let sa = \<lparr>userId = a\<rparr>; sb = \<lparr>userId = b\<rparr>; ref = nextObj s0;
              s1 = fst (run_task (MatchTask (Match_entry sa (Some ba))) s0);
              s2 = fst (run_task (MatchTask (Match_entry sb (Some bb))) s1);
              s3 = fst (run_task (StartTask (Start_entry sa)) s2);
              s4 = (interval_tick ref ^^ 3) s3;
              s5 = interval_tick ref s4;
              winner = (if randoms s0 (randomPos s0) < 0.5 + 0.05 * real_of_int (lv ua - lv ub)
                        then a else b);
              loser = (if winner = a then b else a);
              loser_stake = (if winner = a then bb else ba)
          in map_option winnerId (map_of (pendingGames s2) a) = Some winner \<and>
             map_of (activeGames s4) a = Some ref \<and>
             map_of (activeGames s5) a = None \<and>
             balance s5 winner = balance s4 winner + (loser_stake + DEPOSIT) \<and>
             balance s5 loser = balance s4 loser \<and>
             balance s4 loser = balance s0 loser - (loser_stake + DEPOSIT))"
  unfolding Let_def
  by (rule accounting_core[OF assms refl refl refl refl refl refl refl refl])

theorem settlement_accounting_witness:
  "users fresh ''A'' = Some (profile ''alice'' 500 1) \<and>
   users fresh ''B'' = Some (profile ''bob'' 300 1) \<and>
   ''A'' \<noteq> ''B'' \<and> ''A'' \<noteq> [] \<and> (0::int) < 100 \<and>
   100 + DEPOSIT \<le> points (profile ''alice'' 500 1) \<and>
   100 + DEPOSIT \<le> points (profile ''bob'' 300 1) \<and>
   \<not> already_in fresh ''A'' \<and> \<not> already_in fresh ''B'' \<and> matchingLobby fresh = [] \<and>
   (let s1 = fst (run_task (MatchTask (Match_entry \<lparr>userId = ''A''\<rparr> (Some 100))) fresh);
        s2 = fst (run_task (MatchTask (Match_entry \<lparr>userId = ''B''\<rparr> (Some 100))) s1);
        s3 = fst (run_task (StartTask (Start_entry \<lparr>userId = ''A''\<rparr>)) s2);
        s4 = (interval_tick (nextObj fresh) ^^ 3) s3;
        s5 = interval_tick (nextObj fresh) s4
    in balance s5 ''A'' = balance s4 ''A'' + 102 \<and>
       balance s5 ''B'' = balance s4 ''B'' \<and>
       balance s4 ''B'' = balance fresh ''B'' - 102)"
proof -
  have h1: "users fresh ''A'' = Some (profile ''alice'' 500 1)" by code_simp
  have h2: "users fresh ''B'' = Some (profile ''bob'' 300 1)" by code_simp
  have h3: "''A'' \<noteq> ''B''" by simp
  have h4: "''A'' \<noteq> []" by simp
  have h5: "(0::int) < 100" by simp
  have h6: "100 + DEPOSIT \<le> points (profile ''alice'' 500 1)" by code_simp
  have h7: "100 + DEPOSIT \<le> points (profile ''bob'' 300 1)" by code_simp
  have h8: "\<not> already_in fresh ''A''" by code_simp
  have h9: "\<not> already_in fresh ''B''" by code_simp
  have h10: "matchingLobby fresh = []" by code_simp
  have draw: "randoms fresh (randomPos fresh) = 0.3" by code_simp
  have winner: "(if randoms fresh (randomPos fresh)
                    < 0.5 + 0.05 * real_of_int (lv (profile ''alice'' 500 1) - lv (profile ''bob'' 300 1))
                 then ''A'' else ''B'') = ''A''"
    by (simp add: draw profile_def)
  have cost: "100 + DEPOSIT = 102" by (simp add: DEPOSIT_def)
  note inst = settlement_accounting[OF h1 h2 h3 h4 h5 h5 h6 h7 h8 h9 h10, unfolded Let_def winner]
  from inst have "(let s1 = fst (run_task (MatchTask (Match_entry \<lparr>userId = ''A''\<rparr> (Some 100))) fresh);
        s2 = fst (run_task (MatchTask (Match_entry \<lparr>userId = ''B''\<rparr> (Some 100))) s1);
        s3 = fst (run_task (StartTask (Start_entry \<lparr>userId = ''A''\<rparr>)) s2);
        s4 = (interval_tick (nextObj fresh) ^^ 3) s3;
        s5 = interval_tick (nextObj fresh) s4
    in balance s5 ''A'' = balance s4 ''A'' + 102 \<and>
       balance s5 ''B'' = balance s4 ''B'' \<and>
       balance s4 ''B'' = balance fresh ''B'' - 102)"
    unfolding Let_def by (simp add: cost)
  with h1 h2 h3 h4 h5 h6 h7 h8 h9 h10 show ?thesis by blast
qed

end
